theory Spec2Isabelle
  imports Main
begin

section \<open>The NoC simulation kernel of xls/noc/simulation/sim\_objects.cc\<close>

text \<open>
  The simulator is embedded by explicit state passing. Every method that receives
  \<^verbatim>\<open>NocSimulator& simulator\<close> takes the simulator record and returns it updated.
  The 64-bit signed integers of the source are unbounded integers here: the only
  arithmetic on them is a counter increment and credit addition, and signed overflow is
  undefined in C++.
\<close>

subsection \<open>Faults\<close>

text \<open>
  A method of the source can leave the simulation in three ways that are not a return:
  a failed \<^verbatim>\<open>XLS_CHECK_OK\<close> ends the process, \<^verbatim>\<open>std::vector::at\<close> throws out of range
  (nothing catches it), and \<^verbatim>\<open>operator[]\<close> out of range is undefined behaviour.
\<close>

datatype fault = CheckFailure | OutOfRange | UndefinedBehaviour

type_synonym 'a outcome = "fault + 'a"

definition and_then :: "'a outcome \<Rightarrow> ('a \<Rightarrow> 'b outcome) \<Rightarrow> 'b outcome" where
  "and_then m f = (case m of Inl e \<Rightarrow> Inl e | Inr x \<Rightarrow> f x)"

text \<open>\<^verbatim>\<open>v[i]\<close> and \<^verbatim>\<open>v.at(i)\<close> on a vector, with an index that is a position.\<close>

definition vec_index :: "'a list \<Rightarrow> nat \<Rightarrow> 'a outcome" where
  "vec_index xs i = (if i < length xs then Inr (xs ! i) else Inl UndefinedBehaviour)"

definition vec_at :: "'a list \<Rightarrow> nat \<Rightarrow> 'a outcome" where
  "vec_at xs i = (if i < length xs then Inr (xs ! i) else Inl OutOfRange)"

text \<open>The same with a signed 64-bit index read from a phit or from the routing table.\<close>

definition vec_index_int :: "'a list \<Rightarrow> int \<Rightarrow> 'a outcome" where
  "vec_index_int xs z = (if 0 \<le> z then vec_index xs (nat z) else Inl UndefinedBehaviour)"

definition vec_at_int :: "'a list \<Rightarrow> int \<Rightarrow> 'a outcome" where
  "vec_at_int xs z = (if 0 \<le> z then vec_at xs (nat z) else Inl OutOfRange)"

text \<open>A counted \<^verbatim>\<open>for\<close> loop whose body may fault.\<close>

fun for_each :: "nat list \<Rightarrow> (nat \<Rightarrow> 's \<Rightarrow> 's outcome) \<Rightarrow> 's \<Rightarrow> 's outcome" where
  "for_each [] body s = Inr s"
| "for_each (i # is) body s = and_then (body i s) (for_each is body)"

subsection \<open>Phits and connections\<close>

record MetadataPhit =
  valid :: bool
  data :: int

record DataPhit = MetadataPhit +
  vc :: int
  destination_index :: int

record 'p TimedPhit =
  cycle :: int
  phit :: 'p

type_synonym TimedDataPhit = "DataPhit TimedPhit"
type_synonym TimedMetadataPhit = "MetadataPhit TimedPhit"

record SimConnectionState =
  connection_id :: nat
  forward_channels :: TimedDataPhit
  reverse_channels :: "TimedMetadataPhit list"

record CreditState =
  credit_cycle :: int
  credit :: int

record SimInputBuffer =
  queue :: "DataPhit list"
  max_queue_size :: int

subsection \<open>SimplePipelineImpl\<close>

text \<open>
  \<^verbatim>\<open>state_.size() > stage_count_\<close> compares a \<^verbatim>\<open>size_t\<close> with an \<^verbatim>\<open>int64\<close>: the signed
  operand is converted to unsigned 64 bits first.
\<close>

definition size_gt :: "nat \<Rightarrow> int \<Rightarrow> bool" where
  "size_gt n k = ((if k < 0 then k + 2 ^ 64 else k) < int n)"

text \<open>
  The pipeline holds references \<^verbatim>\<open>from_\<close>, \<^verbatim>\<open>to_\<close> and \<^verbatim>\<open>state_\<close>; it reads \<^verbatim>\<open>from_\<close> and
  writes the other two, so the function returns the new \<^verbatim>\<open>to_\<close> and \<^verbatim>\<open>state_\<close>. It is
  generic in the phit type, like the template. A member \<^verbatim>\<open>name_\<close> of the source is
  written without its trailing underscore throughout, and with the name of its class
  appended where two classes use the same member name. When \<^verbatim>\<open>from_\<close> and \<^verbatim>\<open>to_\<close> are
  the same object, both stamps agree and the source writes nothing, as here.
\<close>

definition TryPropagation ::
  "int \<Rightarrow> int \<Rightarrow> ('a MetadataPhit_scheme) TimedPhit \<Rightarrow> ('a MetadataPhit_scheme) TimedPhit \<Rightarrow>
   ('a MetadataPhit_scheme) list \<Rightarrow>
   bool \<times> ('a MetadataPhit_scheme) TimedPhit \<times> ('a MetadataPhit_scheme) list" where
  "TryPropagation current_cycle stage_count from_channel to_channel state =
     (if cycle from_channel = current_cycle then
        if cycle to_channel = current_cycle then (True, to_channel, state)
        else
          let pushed = state @ [phit from_channel] in
          if size_gt (length pushed) stage_count
          then (False, \<lparr>cycle = current_cycle, phit = hd pushed\<rparr>, tl pushed)
          else (False,
                \<lparr>cycle = current_cycle, phit = (phit to_channel)\<lparr>valid := False, data := 0\<rparr>\<rparr>,
                pushed)
      else (False, to_channel, state))"

subsection \<open>Simulation objects\<close>

text \<open>
  \<^verbatim>\<open>SimNetworkComponentBase\<close> holds what every component has; the four component classes
  extend it, as the derived classes of the source do.
\<close>

record SimNetworkComponentBase =
  id_nc :: nat
  forward_propagated_cycle :: int
  reverse_propagated_cycle :: int

record SimNetworkInterfaceSrc = SimNetworkComponentBase +
  data_to_send :: "TimedDataPhit list list"
  credit_src :: "int list"
  credit_update_src :: "CreditState list"
  sink_connection_index_src :: nat

record SimLink = SimNetworkComponentBase +
  forward_pipeline_stages :: int
  reverse_pipeline_stages :: int
  src_connection_index_link :: nat
  sink_connection_index_link :: nat
  forward_data_stages :: "DataPhit list"
  reverse_credit_stages :: "MetadataPhit list list"

record SimInputBufferedVCRouter = SimNetworkComponentBase +
  input_connection_index_start :: nat
  input_connection_count :: nat
  output_connection_index_start :: nat
  output_connection_count :: nat
  input_buffers_router :: "SimInputBuffer list list"
  input_credit_to_send :: "int list list"
  max_vc :: nat
  credit_router :: "int list list"
  credit_update_router :: "CreditState list list"
  internal_propagated_cycle :: int

record SimNetworkInterfaceSink = SimNetworkComponentBase +
  input_buffers_sink :: "SimInputBuffer list"
  src_connection_index_sink :: nat
  received_traffic :: "TimedDataPhit list"

text \<open>
  The routing table is an external collaborator: its three queries, which
  \<^verbatim>\<open>GetDestinationPortIndexAndVcIndex\<close> chains, are parameters of the model. A failed
  \<^verbatim>\<open>StatusOr\<close> is \<open>None\<close>. Ports are numbered.
\<close>

record DistributedRoutingTable =
  GetPortByIndex :: "nat \<Rightarrow> nat \<Rightarrow> nat option"
  GetRouterOutputPortByIndex :: "nat \<times> int \<Rightarrow> int \<Rightarrow> (nat \<times> int) option"
  GetPortIndex :: "nat \<Rightarrow> int option"

record NocSimulator =
  cycle_sim :: int
  connections :: "SimConnectionState list"
  connection_indices_store :: "nat list"
  routing :: DistributedRoutingTable
  network_interface_sources :: "SimNetworkInterfaceSrc list"
  links :: "SimLink list"
  routers :: "SimInputBufferedVCRouter list"
  network_interface_sinks :: "SimNetworkInterfaceSink list"

text \<open>
  The accessors of \<^verbatim>\<open>NocSimulator\<close> that the methods call are declared in the header:
  the current cycle, a connection by its index (\<^verbatim>\<open>operator[]\<close> on the connection
  vector), and a span of the shared store of connection indices.
\<close>

definition GetCurrentCycle :: "NocSimulator \<Rightarrow> int" where
  "GetCurrentCycle simulator = cycle_sim simulator"

definition GetSimConnectionByIndex :: "NocSimulator \<Rightarrow> nat \<Rightarrow> SimConnectionState outcome" where
  "GetSimConnectionByIndex simulator index = vec_index (connections simulator) index"

definition GetConnectionIndicesStore :: "NocSimulator \<Rightarrow> nat \<Rightarrow> nat \<Rightarrow> nat list" where
  "GetConnectionIndicesStore simulator start count =
     take count (drop start (connection_indices_store simulator))"

text \<open>Writing through a reference obtained from \<^verbatim>\<open>GetSimConnectionByIndex\<close>.\<close>

definition put_connection :: "nat \<Rightarrow> SimConnectionState \<Rightarrow> NocSimulator \<Rightarrow> NocSimulator" where
  "put_connection index c simulator =
     simulator\<lparr>connections := (connections simulator)[index := c]\<rparr>"

subsection \<open>SimNetworkComponentBase::Tick\<close>

text \<open>
  The two virtual methods are arguments. Each returns whether it succeeded, the component
  and the simulator. \<^verbatim>\<open>Tick\<close> is two guarded blocks, one per phase; each block yields
  whether it leaves \<^verbatim>\<open>converged\<close> true.
\<close>

definition forward_phase ::
  "('a SimNetworkComponentBase_scheme \<Rightarrow> NocSimulator \<Rightarrow>
      (bool \<times> 'a SimNetworkComponentBase_scheme \<times> NocSimulator) outcome) \<Rightarrow>
   int \<Rightarrow> 'a SimNetworkComponentBase_scheme \<Rightarrow> NocSimulator \<Rightarrow>
   (bool \<times> 'a SimNetworkComponentBase_scheme \<times> NocSimulator) outcome" where
  "forward_phase TryForwardPropagation cur nc simulator =
     (if forward_propagated_cycle nc \<noteq> cur then
        and_then (TryForwardPropagation nc simulator) (\<lambda>(ok, nc1, sim1).
          if ok then Inr (True, nc1\<lparr>forward_propagated_cycle := cur\<rparr>, sim1)
          else Inr (False, nc1, sim1))
      else Inr (True, nc, simulator))"

definition reverse_phase ::
  "('a SimNetworkComponentBase_scheme \<Rightarrow> NocSimulator \<Rightarrow>
      (bool \<times> 'a SimNetworkComponentBase_scheme \<times> NocSimulator) outcome) \<Rightarrow>
   int \<Rightarrow> 'a SimNetworkComponentBase_scheme \<Rightarrow> NocSimulator \<Rightarrow>
   (bool \<times> 'a SimNetworkComponentBase_scheme \<times> NocSimulator) outcome" where
  "reverse_phase TryReversePropagation cur nc simulator =
     (if reverse_propagated_cycle nc \<noteq> cur then
        and_then (TryReversePropagation nc simulator) (\<lambda>(ok, nc1, sim1).
          if ok then Inr (True, nc1\<lparr>reverse_propagated_cycle := cur\<rparr>, sim1)
          else Inr (False, nc1, sim1))
      else Inr (True, nc, simulator))"

definition SimNetworkComponentBase_Tick ::
  "('a SimNetworkComponentBase_scheme \<Rightarrow> NocSimulator \<Rightarrow>
      (bool \<times> 'a SimNetworkComponentBase_scheme \<times> NocSimulator) outcome) \<Rightarrow>
   ('a SimNetworkComponentBase_scheme \<Rightarrow> NocSimulator \<Rightarrow>
      (bool \<times> 'a SimNetworkComponentBase_scheme \<times> NocSimulator) outcome) \<Rightarrow>
   'a SimNetworkComponentBase_scheme \<Rightarrow> NocSimulator \<Rightarrow>
   (bool \<times> 'a SimNetworkComponentBase_scheme \<times> NocSimulator) outcome" where
  "SimNetworkComponentBase_Tick TryForwardPropagation TryReversePropagation nc simulator =
     (let cur = GetCurrentCycle simulator in
      and_then (forward_phase TryForwardPropagation cur nc simulator)
        (\<lambda>(forward_done, nc1, sim1).
      and_then (reverse_phase TryReversePropagation cur nc1 sim1)
        (\<lambda>(reverse_done, nc2, sim2).
      Inr (forward_done \<and> reverse_done, nc2, sim2))))"

subsection \<open>SimNetworkInterfaceSrc\<close>

text \<open>The body of the credit loop of \<^verbatim>\<open>SimNetworkInterfaceSrc::TryForwardPropagation\<close>.\<close>

definition src_update_credit ::
  "nat \<Rightarrow> SimNetworkInterfaceSrc \<Rightarrow> SimNetworkInterfaceSrc outcome" where
  "src_update_credit v nc =
     and_then (vec_index (credit_update_src nc) v) (\<lambda>upd.
       if 0 < credit upd then
         and_then (vec_index (credit_src nc) v) (\<lambda>c.
           Inr (nc\<lparr>credit_src := (credit_src nc)[v := c + credit upd]\<rparr>))
       else Inr nc)"

text \<open>
  The send loop, which leaves at its \<^verbatim>\<open>break\<close>; the boolean is \<^verbatim>\<open>did_send_phit\<close>.
\<close>

fun src_send_data ::
  "nat list \<Rightarrow> int \<Rightarrow> SimNetworkInterfaceSrc \<Rightarrow> NocSimulator \<Rightarrow>
   (bool \<times> SimNetworkInterfaceSrc \<times> NocSimulator) outcome" where
  "src_send_data [] current_cycle nc simulator = Inr (False, nc, simulator)"
| "src_send_data (v # vs) current_cycle nc simulator =
     (case vec_index (data_to_send nc) v of
        Inl e \<Rightarrow> Inl e
      | Inr send_queue \<Rightarrow>
          if send_queue \<noteq> [] \<and> cycle (hd send_queue) \<le> current_cycle then
            (case vec_index (credit_src nc) v of
               Inl e \<Rightarrow> Inl e
             | Inr c \<Rightarrow>
                 if 0 < c then
                   and_then (GetSimConnectionByIndex simulator (sink_connection_index_src nc))
                     (\<lambda>sink. Inr (True,
                        nc\<lparr>credit_src := (credit_src nc)[v := c - 1],
                           data_to_send := (data_to_send nc)[v := tl send_queue]\<rparr>,
                        put_connection (sink_connection_index_src nc)
                          (sink\<lparr>forward_channels :=
                             \<lparr>cycle = current_cycle,
                              phit = (phit (hd send_queue))\<lparr>valid := True, vc := int v\<rparr>\<rparr>\<rparr>)
                          simulator))
                 else src_send_data vs current_cycle nc simulator)
          else src_send_data vs current_cycle nc simulator)"

definition SimNetworkInterfaceSrc_TryForwardPropagation ::
  "SimNetworkInterfaceSrc \<Rightarrow> NocSimulator \<Rightarrow>
   (bool \<times> SimNetworkInterfaceSrc \<times> NocSimulator) outcome" where
  "SimNetworkInterfaceSrc_TryForwardPropagation nc simulator =
     (let current_cycle = GetCurrentCycle simulator in
      and_then (GetSimConnectionByIndex simulator (sink_connection_index_src nc)) (\<lambda>_.
      and_then (for_each [0..<length (credit_src nc)] src_update_credit nc) (\<lambda>nc1.
      and_then (src_send_data [0..<length (data_to_send nc1)] current_cycle nc1 simulator)
        (\<lambda>(did_send_phit, nc2, sim2).
      and_then (GetSimConnectionByIndex sim2 (sink_connection_index_src nc2)) (\<lambda>sink.
        Inr (True, nc2\<lparr>forward_propagated_cycle := current_cycle\<rparr>,
             if \<not> did_send_phit then
               put_connection (sink_connection_index_src nc2)
                 (sink\<lparr>forward_channels :=
                    \<lparr>cycle = current_cycle,
                     phit = (phit (forward_channels sink))
                       \<lparr>valid := False, data := 0, vc := 0, destination_index := 0\<rparr>\<rparr>\<rparr>)
                 sim2
             else sim2))))))"

text \<open>The body of the loop of \<^verbatim>\<open>SimNetworkInterfaceSrc::TryReversePropagation\<close>.\<close>

definition src_receive_credit ::
  "int \<Rightarrow> NocSimulator \<Rightarrow> nat \<Rightarrow> SimNetworkInterfaceSrc \<times> nat \<Rightarrow>
   (SimNetworkInterfaceSrc \<times> nat) outcome" where
  "src_receive_credit current_cycle simulator v = (\<lambda>(nc, num_propagated).
     and_then (GetSimConnectionByIndex simulator (sink_connection_index_src nc)) (\<lambda>sink.
     and_then (vec_index (reverse_channels sink) v) (\<lambda>possible_credit.
       if cycle possible_credit = current_cycle then
         and_then (vec_index (credit_update_src nc) v) (\<lambda>upd.
           Inr (if credit_cycle upd \<noteq> current_cycle then
                  nc\<lparr>credit_update_src := (credit_update_src nc)
                       [v := \<lparr>credit_cycle = current_cycle,
                              credit = (if valid (phit possible_credit)
                                        then data (phit possible_credit) else 0)\<rparr>]\<rparr>
                else nc,
                num_propagated + 1))
       else Inr (nc, num_propagated))))"

definition SimNetworkInterfaceSrc_TryReversePropagation ::
  "SimNetworkInterfaceSrc \<Rightarrow> NocSimulator \<Rightarrow>
   (bool \<times> SimNetworkInterfaceSrc \<times> NocSimulator) outcome" where
  "SimNetworkInterfaceSrc_TryReversePropagation nc simulator =
     (let current_cycle = GetCurrentCycle simulator;
          vc_count = length (credit_update_src nc) in
      and_then (GetSimConnectionByIndex simulator (sink_connection_index_src nc)) (\<lambda>_.
      and_then (for_each [0..<vc_count] (src_receive_credit current_cycle simulator) (nc, 0))
        (\<lambda>(nc1, num_propagated).
           if num_propagated = vc_count
           then Inr (True, nc1\<lparr>reverse_propagated_cycle := current_cycle\<rparr>, simulator)
           else Inr (False, nc1, simulator))))"

subsection \<open>SimLink\<close>

definition SimLink_TryForwardPropagation ::
  "SimLink \<Rightarrow> NocSimulator \<Rightarrow> (bool \<times> SimLink \<times> NocSimulator) outcome" where
  "SimLink_TryForwardPropagation nc simulator =
     and_then (GetSimConnectionByIndex simulator (src_connection_index_link nc)) (\<lambda>src.
     and_then (GetSimConnectionByIndex simulator (sink_connection_index_link nc)) (\<lambda>sink.
       case TryPropagation (GetCurrentCycle simulator) (forward_pipeline_stages nc)
              (forward_channels src) (forward_channels sink) (forward_data_stages nc) of
         (did_propagate, to_channel, state) \<Rightarrow>
           let nc1 = nc\<lparr>forward_data_stages := state\<rparr>;
               sim1 = put_connection (sink_connection_index_link nc)
                        (sink\<lparr>forward_channels := to_channel\<rparr>) simulator
           in if did_propagate
              then Inr (True, nc1\<lparr>forward_propagated_cycle := GetCurrentCycle simulator\<rparr>, sim1)
              else Inr (False, nc1, sim1)))"

text \<open>The body of the loop of \<^verbatim>\<open>SimLink::TryReversePropagation\<close>, one lane per VC.\<close>

definition link_reverse_lane ::
  "nat \<Rightarrow> SimLink \<times> NocSimulator \<times> nat \<Rightarrow> (SimLink \<times> NocSimulator \<times> nat) outcome" where
  "link_reverse_lane v = (\<lambda>(nc, simulator, num_propagated).
     and_then (GetSimConnectionByIndex simulator (src_connection_index_link nc)) (\<lambda>src.
     and_then (GetSimConnectionByIndex simulator (sink_connection_index_link nc)) (\<lambda>sink.
     and_then (vec_at (reverse_channels sink) v) (\<lambda>from_channel.
     and_then (vec_at (reverse_channels src) v) (\<lambda>to_channel.
     and_then (vec_at (reverse_credit_stages nc) v) (\<lambda>state.
       case TryPropagation (GetCurrentCycle simulator) (reverse_pipeline_stages nc)
              from_channel to_channel state of
         (did_propagate, to_channel1, state1) \<Rightarrow>
           Inr (nc\<lparr>reverse_credit_stages := (reverse_credit_stages nc)[v := state1]\<rparr>,
                put_connection (src_connection_index_link nc)
                  (src\<lparr>reverse_channels := (reverse_channels src)[v := to_channel1]\<rparr>) simulator,
                if did_propagate then num_propagated + 1 else num_propagated)))))))"

definition SimLink_TryReversePropagation ::
  "SimLink \<Rightarrow> NocSimulator \<Rightarrow> (bool \<times> SimLink \<times> NocSimulator) outcome" where
  "SimLink_TryReversePropagation nc simulator =
     and_then (GetSimConnectionByIndex simulator (src_connection_index_link nc)) (\<lambda>_.
     and_then (GetSimConnectionByIndex simulator (sink_connection_index_link nc)) (\<lambda>sink.
       let vc_count = length (reverse_channels sink) in
       and_then (for_each [0..<vc_count] link_reverse_lane (nc, simulator, 0))
         (\<lambda>(nc1, sim1, num_propagated).
            if num_propagated = vc_count
            then Inr (True, nc1\<lparr>reverse_propagated_cycle := GetCurrentCycle simulator\<rparr>, sim1)
            else Inr (False, nc1, sim1))))"

subsection \<open>SimInputBufferedVCRouter\<close>

definition GetDestinationPortIndexAndVcIndex ::
  "DistributedRoutingTable \<Rightarrow> nat \<Rightarrow> nat \<times> int \<Rightarrow> int \<Rightarrow> (int \<times> int) option" where
  "GetDestinationPortIndexAndVcIndex routes router_id input destination =
     (case GetPortByIndex routes router_id (fst input) of
        None \<Rightarrow> None
      | Some input_port \<Rightarrow>
          (case GetRouterOutputPortByIndex routes (input_port, snd input) destination of
             None \<Rightarrow> None
           | Some port_to \<Rightarrow>
               (case GetPortIndex routes (fst port_to) of
                  None \<Rightarrow> None
                | Some output_port_index \<Rightarrow> Some (output_port_index, snd port_to))))"

text \<open>Credit application for output port \<open>i\<close> and VC \<open>v\<close>.\<close>

definition router_update_credit ::
  "nat \<Rightarrow> nat \<Rightarrow> SimInputBufferedVCRouter \<Rightarrow> SimInputBufferedVCRouter outcome" where
  "router_update_credit i v nc =
     and_then (vec_index (credit_update_router nc) i) (\<lambda>upd_row.
     and_then (vec_index upd_row v) (\<lambda>upd.
       if 0 < credit upd then
         and_then (vec_index (credit_router nc) i) (\<lambda>row.
         and_then (vec_index row v) (\<lambda>c.
           Inr (nc\<lparr>credit_router := (credit_router nc)[i := row[v := c + credit upd]]\<rparr>)))
       else Inr nc))"

definition router_update_credits ::
  "SimInputBufferedVCRouter \<Rightarrow> SimInputBufferedVCRouter outcome" where
  "router_update_credits nc =
     for_each [0..<length (credit_update_router nc)]
       (\<lambda>i nc1. for_each [0..<length (credit_update_router nc1 ! i)] (router_update_credit i) nc1)
       nc"

text \<open>The readiness loop, which leaves at its \<^verbatim>\<open>break\<close>; the value is \<^verbatim>\<open>can_propagate_forward\<close>.\<close>

fun router_inputs_ready :: "nat list \<Rightarrow> nat list \<Rightarrow> NocSimulator \<Rightarrow> bool outcome" where
  "router_inputs_ready [] input_connection_index simulator = Inr True"
| "router_inputs_ready (i # is) input_connection_index simulator =
     (case vec_index input_connection_index i of
        Inl e \<Rightarrow> Inl e
      | Inr ci \<Rightarrow>
          (case GetSimConnectionByIndex simulator ci of
             Inl e \<Rightarrow> Inl e
           | Inr input \<Rightarrow>
               if cycle (forward_channels input) \<noteq> GetCurrentCycle simulator then Inr False
               else router_inputs_ready is input_connection_index simulator))"

definition router_reset_credit_to_send ::
  "nat \<Rightarrow> SimInputBufferedVCRouter \<Rightarrow> SimInputBufferedVCRouter outcome" where
  "router_reset_credit_to_send i nc =
     and_then (vec_index (input_credit_to_send nc) i) (\<lambda>row.
       Inr (nc\<lparr>input_credit_to_send := (input_credit_to_send nc)[i := map (\<lambda>_. 0) row]\<rparr>))"

definition router_ingest ::
  "nat list \<Rightarrow> NocSimulator \<Rightarrow> nat \<Rightarrow> SimInputBufferedVCRouter \<Rightarrow>
   SimInputBufferedVCRouter outcome" where
  "router_ingest input_connection_index simulator i nc =
     and_then (vec_index input_connection_index i) (\<lambda>ci.
     and_then (GetSimConnectionByIndex simulator ci) (\<lambda>input.
       if valid (phit (forward_channels input)) then
         and_then (vec_index (input_buffers_router nc) i) (\<lambda>row.
         and_then (vec_index_int row (vc (phit (forward_channels input)))) (\<lambda>buf.
           Inr (nc\<lparr>input_buffers_router := (input_buffers_router nc)
                  [i := row[nat (vc (phit (forward_channels input))) :=
                         buf\<lparr>queue := queue buf @ [phit (forward_channels input)]\<rparr>]]\<rparr>)))
       else Inr nc))"

text \<open>One arbitration attempt: the body of the two nested priority loops, for VC \<open>v\<close> and input \<open>i\<close>.\<close>

definition router_arbitrate ::
  "nat list \<Rightarrow> nat \<Rightarrow> nat \<Rightarrow> SimInputBufferedVCRouter \<times> NocSimulator \<Rightarrow>
   (SimInputBufferedVCRouter \<times> NocSimulator) outcome" where
  "router_arbitrate output_connection_index v i = (\<lambda>(nc, simulator).
     and_then (vec_index (input_buffers_router nc) i) (\<lambda>row.
       if length row \<le> v then Inr (nc, simulator)
       else if queue (row ! v) = [] then Inr (nc, simulator)
       else
         let p = hd (queue (row ! v)) in
         case GetDestinationPortIndexAndVcIndex (routing simulator) (id_nc nc) (i, int v)
                (destination_index p) of
           None \<Rightarrow> Inl CheckFailure
         | Some output \<Rightarrow>
             and_then (vec_at_int (credit_router nc) (fst output)) (\<lambda>credit_row.
             and_then (vec_at_int credit_row (snd output)) (\<lambda>c.
               if c \<le> 0 then Inr (nc, simulator)
               else
                 and_then (vec_at_int output_connection_index (fst output)) (\<lambda>oc.
                 and_then (GetSimConnectionByIndex simulator oc) (\<lambda>output_state.
                   if cycle (forward_channels output_state) = GetCurrentCycle simulator
                   then Inr (nc, simulator)
                   else
                     and_then (vec_index (input_credit_to_send nc) i) (\<lambda>send_row.
                     and_then (vec_index send_row v) (\<lambda>to_send.
                       Inr (nc\<lparr>credit_router := (credit_router nc)
                                 [nat (fst output) := credit_row[nat (snd output) := c - 1]],
                               input_credit_to_send := (input_credit_to_send nc)
                                 [i := send_row[v := to_send + 1]],
                               input_buffers_router := (input_buffers_router nc)
                                 [i := row[v := (row ! v)\<lparr>queue := tl (queue (row ! v))\<rparr>]]\<rparr>,
                            put_connection oc
                              (output_state\<lparr>forward_channels :=
                                 \<lparr>cycle = GetCurrentCycle simulator,
                                  phit = p\<lparr>valid := True, vc := snd output\<rparr>\<rparr>\<rparr>)
                              simulator)))))))))"

definition router_bubble ::
  "nat list \<Rightarrow> nat \<Rightarrow> NocSimulator \<Rightarrow> NocSimulator outcome" where
  "router_bubble output_connection_index i simulator =
     and_then (vec_index output_connection_index i) (\<lambda>oc.
     and_then (GetSimConnectionByIndex simulator oc) (\<lambda>output.
       if cycle (forward_channels output) \<noteq> GetCurrentCycle simulator then
         Inr (put_connection oc
                (output\<lparr>forward_channels :=
                   \<lparr>cycle = GetCurrentCycle simulator,
                    phit = (phit (forward_channels output))
                      \<lparr>valid := False, data := 0, vc := 0, destination_index := 0\<rparr>\<rparr>\<rparr>)
                simulator)
       else Inr simulator))"

definition SimInputBufferedVCRouter_TryForwardPropagation ::
  "SimInputBufferedVCRouter \<Rightarrow> NocSimulator \<Rightarrow>
   (bool \<times> SimInputBufferedVCRouter \<times> NocSimulator) outcome" where
  "SimInputBufferedVCRouter_TryForwardPropagation nc simulator =
     (let current_cycle = GetCurrentCycle simulator;
          input_connection_index = GetConnectionIndicesStore simulator
            (input_connection_index_start nc) (input_connection_count nc);
          output_connection_index = GetConnectionIndicesStore simulator
            (output_connection_index_start nc) (output_connection_count nc) in
      and_then
        (if internal_propagated_cycle nc \<noteq> current_cycle then
           and_then (router_update_credits nc) (\<lambda>nc1.
             Inr (nc1\<lparr>internal_propagated_cycle := current_cycle\<rparr>))
         else Inr nc) (\<lambda>nc1.
      and_then (router_inputs_ready [0..<input_connection_count nc1] input_connection_index
                  simulator) (\<lambda>can_propagate_forward.
        if \<not> can_propagate_forward then Inr (False, nc1, simulator)
        else
          and_then (for_each [0..<input_connection_count nc1] router_reset_credit_to_send nc1)
            (\<lambda>nc2.
          and_then (for_each [0..<input_connection_count nc2]
                      (router_ingest input_connection_index simulator) nc2) (\<lambda>nc3.
          and_then (for_each [0..<max_vc nc3]
                      (\<lambda>v st. for_each [0..<length (input_buffers_router (fst st))]
                                 (router_arbitrate output_connection_index v) st)
                      (nc3, simulator)) (\<lambda>(nc4, sim4).
          and_then (for_each [0..<length output_connection_index]
                      (router_bubble output_connection_index) sim4) (\<lambda>sim5.
            Inr (True, nc4\<lparr>forward_propagated_cycle := current_cycle\<rparr>, sim5))))))))"

text \<open>Sending the credit of input \<open>i\<close> and VC \<open>v\<close> upstream.\<close>

definition router_send_credit ::
  "SimInputBufferedVCRouter \<Rightarrow> nat list \<Rightarrow> nat \<Rightarrow> nat \<Rightarrow> NocSimulator \<Rightarrow>
   NocSimulator outcome" where
  "router_send_credit nc input_connection_index i v simulator =
     and_then (vec_index input_connection_index i) (\<lambda>ci.
     and_then (GetSimConnectionByIndex simulator ci) (\<lambda>input.
     and_then
       (if GetCurrentCycle simulator = 0 then
          and_then (vec_index (input_buffers_router nc) i) (\<lambda>row.
          and_then (vec_index row v) (\<lambda>buf. Inr (max_queue_size buf)))
        else
          and_then (vec_index (input_credit_to_send nc) i) (\<lambda>row. vec_index row v))
       (\<lambda>d.
          Inr (put_connection ci
                 (input\<lparr>reverse_channels := (reverse_channels input)
                    [v := \<lparr>cycle = GetCurrentCycle simulator,
                           phit = \<lparr>valid = True, data = d\<rparr>\<rparr>]\<rparr>)
                 simulator))))"

definition router_send_credits ::
  "SimInputBufferedVCRouter \<Rightarrow> nat list \<Rightarrow> nat \<Rightarrow> NocSimulator \<Rightarrow> NocSimulator outcome" where
  "router_send_credits nc input_connection_index i simulator =
     and_then (vec_index input_connection_index i) (\<lambda>ci.
     and_then (GetSimConnectionByIndex simulator ci) (\<lambda>input.
       for_each [0..<length (reverse_channels input)]
         (router_send_credit nc input_connection_index i) simulator))"

text \<open>
  Receiving the credit of output \<open>i\<close> and VC \<open>v\<close>; the two counters are
  \<^verbatim>\<open>num_propagated\<close> and \<^verbatim>\<open>possible_propagation\<close>.
\<close>

definition router_receive_credit ::
  "NocSimulator \<Rightarrow> nat list \<Rightarrow> nat \<Rightarrow> nat \<Rightarrow> SimInputBufferedVCRouter \<times> nat \<times> nat \<Rightarrow>
   (SimInputBufferedVCRouter \<times> nat \<times> nat) outcome" where
  "router_receive_credit simulator output_connection_index i v =
     (\<lambda>(nc, num_propagated, possible_propagation).
     and_then (vec_at output_connection_index i) (\<lambda>oc.
     and_then (GetSimConnectionByIndex simulator oc) (\<lambda>output.
     and_then (vec_index (reverse_channels output) v) (\<lambda>possible_credit.
       if cycle possible_credit = GetCurrentCycle simulator then
         and_then (vec_index (credit_update_router nc) i) (\<lambda>upd_row.
         and_then (vec_index upd_row v) (\<lambda>upd.
           Inr (if credit_cycle upd \<noteq> GetCurrentCycle simulator then
                  nc\<lparr>credit_update_router := (credit_update_router nc)
                       [i := upd_row
                          [v := \<lparr>credit_cycle = GetCurrentCycle simulator,
                                 credit = (if valid (phit possible_credit)
                                           then data (phit possible_credit) else 0)\<rparr>]]\<rparr>
                else nc,
                num_propagated + 1, possible_propagation + 1)))
       else Inr (nc, num_propagated, possible_propagation + 1)))))"

definition router_receive_credits ::
  "NocSimulator \<Rightarrow> nat list \<Rightarrow> nat \<Rightarrow> SimInputBufferedVCRouter \<times> nat \<times> nat \<Rightarrow>
   (SimInputBufferedVCRouter \<times> nat \<times> nat) outcome" where
  "router_receive_credits simulator output_connection_index i st =
     and_then (vec_at output_connection_index i) (\<lambda>oc.
     and_then (GetSimConnectionByIndex simulator oc) (\<lambda>_.
       for_each [0..<length (credit_update_router (fst st) ! i)]
         (router_receive_credit simulator output_connection_index i) st))"

definition SimInputBufferedVCRouter_TryReversePropagation ::
  "SimInputBufferedVCRouter \<Rightarrow> NocSimulator \<Rightarrow>
   (bool \<times> SimInputBufferedVCRouter \<times> NocSimulator) outcome" where
  "SimInputBufferedVCRouter_TryReversePropagation nc simulator =
     (if forward_propagated_cycle nc \<noteq> GetCurrentCycle simulator then Inr (False, nc, simulator)
      else
        let input_connection_index = GetConnectionIndicesStore simulator
              (input_connection_index_start nc) (input_connection_count nc);
            output_connection_index = GetConnectionIndicesStore simulator
              (output_connection_index_start nc) (output_connection_count nc) in
        and_then (for_each [0..<input_connection_count nc]
                    (router_send_credits nc input_connection_index) simulator) (\<lambda>sim1.
        and_then (for_each [0..<length (credit_update_router nc)]
                    (router_receive_credits sim1 output_connection_index) (nc, 0, 0))
          (\<lambda>(nc1, num_propagated, possible_propagation).
             Inr (possible_propagation = num_propagated, nc1, sim1))))"

subsection \<open>SimNetworkInterfaceSink\<close>

definition sink_full_credit ::
  "SimNetworkInterfaceSink \<Rightarrow> nat \<Rightarrow> SimConnectionState \<Rightarrow> SimConnectionState outcome" where
  "sink_full_credit nc v src =
     and_then (vec_index (input_buffers_sink nc) v) (\<lambda>buf.
       Inr (src\<lparr>reverse_channels := (reverse_channels src)
              [v := \<lparr>cycle = 0, phit = \<lparr>valid = True, data = max_queue_size buf\<rparr>\<rparr>]\<rparr>))"

definition sink_no_credit :: "int \<Rightarrow> nat \<Rightarrow> SimConnectionState \<Rightarrow> SimConnectionState outcome" where
  "sink_no_credit current_cycle v src =
     and_then (vec_index (reverse_channels src) v) (\<lambda>r.
       Inr (if cycle r \<noteq> current_cycle then
              src\<lparr>reverse_channels := (reverse_channels src)
                [v := \<lparr>cycle = current_cycle, phit = \<lparr>valid = False, data = 0\<rparr>\<rparr>]\<rparr>
            else src))"

definition SimNetworkInterfaceSink_TryForwardPropagation ::
  "SimNetworkInterfaceSink \<Rightarrow> NocSimulator \<Rightarrow>
   (bool \<times> SimNetworkInterfaceSink \<times> NocSimulator) outcome" where
  "SimNetworkInterfaceSink_TryForwardPropagation nc simulator =
     (let current_cycle = GetCurrentCycle simulator in
      and_then (GetSimConnectionByIndex simulator (src_connection_index_sink nc)) (\<lambda>src.
        if cycle (forward_channels src) \<noteq> current_cycle then Inr (False, nc, simulator)
        else
          and_then
            (if valid (phit (forward_channels src)) then
               and_then (vec_index_int (reverse_channels src) (vc (phit (forward_channels src))))
                 (\<lambda>_. Inr (nc\<lparr>received_traffic := received_traffic nc @
                                 [\<lparr>cycle = current_cycle, phit = phit (forward_channels src)\<rparr>]\<rparr>,
                            src\<lparr>reverse_channels := (reverse_channels src)
                              [nat (vc (phit (forward_channels src))) :=
                                 \<lparr>cycle = current_cycle, phit = \<lparr>valid = True, data = 1\<rparr>\<rparr>]\<rparr>))
             else Inr (nc, src)) (\<lambda>(nc1, src1).
          and_then
            (if current_cycle = 0
             then for_each [0..<length (reverse_channels src1)] (sink_full_credit nc1) src1
             else for_each [0..<length (reverse_channels src1)] (sink_no_credit current_cycle) src1)
            (\<lambda>src2.
               Inr (True, nc1, put_connection (src_connection_index_sink nc1) src2 simulator)))))"

text \<open>
  Modelled from the spec: \<^verbatim>\<open>SimNetworkInterfaceSink::TryReversePropagation\<close> is not defined
  in sim\_objects.cc (the sink inherits it from the class declaration). The specification
  gives the sink no reverse phase: its credits go out during forward propagation
  (section 4.5), so the reverse phase succeeds at once and changes nothing.
\<close>

definition SimNetworkInterfaceSink_TryReversePropagation ::
  "SimNetworkInterfaceSink \<Rightarrow> NocSimulator \<Rightarrow>
   (bool \<times> SimNetworkInterfaceSink \<times> NocSimulator) outcome" where
  "SimNetworkInterfaceSink_TryReversePropagation nc simulator = Inr (True, nc, simulator)"

subsection \<open>SimNetworkInterfaceSrc::InitializeImpl\<close>

text \<open>
  \<^verbatim>\<open>std::vector::resize(n, v)\<close>. The parameter and network lookups of the initializer are
  external: the VC count of the port and the index of the connection are arguments.
\<close>

definition resize :: "'a list \<Rightarrow> nat \<Rightarrow> 'a \<Rightarrow> 'a list" where
  "resize xs n v = take n xs @ replicate (n - length xs) v"

definition SimNetworkInterfaceSrc_InitializeImpl ::
  "nat \<Rightarrow> nat \<Rightarrow> NocSimulator \<Rightarrow> SimNetworkInterfaceSrc \<Rightarrow> SimNetworkInterfaceSrc" where
  "SimNetworkInterfaceSrc_InitializeImpl virtual_channel_count sink_connection simulator nc =
     nc\<lparr>data_to_send := resize (data_to_send nc) virtual_channel_count [],
        credit_src := resize (credit_src nc) virtual_channel_count 0,
        credit_update_src := resize (credit_update_src nc) virtual_channel_count
          \<lparr>credit_cycle = GetCurrentCycle simulator, credit = 0\<rparr>,
        sink_connection_index_src := sink_connection\<rparr>"

subsection \<open>NocSimulator::Tick and NocSimulator::RunCycle\<close>

definition SimNetworkInterfaceSrc_Tick ::
  "SimNetworkInterfaceSrc \<Rightarrow> NocSimulator \<Rightarrow>
   (bool \<times> SimNetworkInterfaceSrc \<times> NocSimulator) outcome" where
  "SimNetworkInterfaceSrc_Tick =
     SimNetworkComponentBase_Tick SimNetworkInterfaceSrc_TryForwardPropagation
       SimNetworkInterfaceSrc_TryReversePropagation"

definition SimLink_Tick ::
  "SimLink \<Rightarrow> NocSimulator \<Rightarrow> (bool \<times> SimLink \<times> NocSimulator) outcome" where
  "SimLink_Tick =
     SimNetworkComponentBase_Tick SimLink_TryForwardPropagation SimLink_TryReversePropagation"

definition SimInputBufferedVCRouter_Tick ::
  "SimInputBufferedVCRouter \<Rightarrow> NocSimulator \<Rightarrow>
   (bool \<times> SimInputBufferedVCRouter \<times> NocSimulator) outcome" where
  "SimInputBufferedVCRouter_Tick =
     SimNetworkComponentBase_Tick SimInputBufferedVCRouter_TryForwardPropagation
       SimInputBufferedVCRouter_TryReversePropagation"

definition SimNetworkInterfaceSink_Tick ::
  "SimNetworkInterfaceSink \<Rightarrow> NocSimulator \<Rightarrow>
   (bool \<times> SimNetworkInterfaceSink \<times> NocSimulator) outcome" where
  "SimNetworkInterfaceSink_Tick =
     SimNetworkComponentBase_Tick SimNetworkInterfaceSink_TryForwardPropagation
       SimNetworkInterfaceSink_TryReversePropagation"

text \<open>
  One of the four range-for loops of \<^verbatim>\<open>NocSimulator::Tick\<close>. The loop variable is a
  reference into a component vector; the ticked components are collected and stored back
  after the loop. No method reads a component vector through the simulator.
\<close>

fun tick_each ::
  "('c \<Rightarrow> NocSimulator \<Rightarrow> (bool \<times> 'c \<times> NocSimulator) outcome) \<Rightarrow> 'c list \<Rightarrow> bool \<Rightarrow>
   NocSimulator \<Rightarrow> (bool \<times> 'c list \<times> NocSimulator) outcome" where
  "tick_each tick [] converged simulator = Inr (converged, [], simulator)"
| "tick_each tick (nc # ncs) converged simulator =
     (case tick nc simulator of
        Inl e \<Rightarrow> Inl e
      | Inr (this_converged, nc1, sim1) \<Rightarrow>
          (case tick_each tick ncs (converged \<and> this_converged) sim1 of
             Inl e \<Rightarrow> Inl e
           | Inr (c, ncs1, sim2) \<Rightarrow> Inr (c, nc1 # ncs1, sim2)))"

definition NocSimulator_Tick :: "NocSimulator \<Rightarrow> (bool \<times> NocSimulator) outcome" where
  "NocSimulator_Tick simulator =
     and_then (tick_each SimNetworkInterfaceSrc_Tick (network_interface_sources simulator)
                 True simulator) (\<lambda>(c1, ncs1, sim1).
     let sim1 = sim1\<lparr>network_interface_sources := ncs1\<rparr> in
     and_then (tick_each SimLink_Tick (links sim1) c1 sim1) (\<lambda>(c2, ncs2, sim2).
     let sim2 = sim2\<lparr>links := ncs2\<rparr> in
     and_then (tick_each SimInputBufferedVCRouter_Tick (routers sim2) c2 sim2)
       (\<lambda>(c3, ncs3, sim3).
     let sim3 = sim3\<lparr>routers := ncs3\<rparr> in
     and_then (tick_each SimNetworkInterfaceSink_Tick (network_interface_sinks sim3) c3 sim3)
       (\<lambda>(c4, ncs4, sim4).
     Inr (c4, sim4\<lparr>network_interface_sinks := ncs4\<rparr>)))))"

text \<open>
  The \<^verbatim>\<open>while (!converged)\<close> loop of \<^verbatim>\<open>RunCycle\<close>. Nothing bounds it, so it is a partial
  function: \<open>None\<close> is a loop that never ends. It returns the simulator and \<^verbatim>\<open>nticks\<close>.
\<close>

partial_function (option) run_ticks ::
  "NocSimulator \<Rightarrow> int \<Rightarrow> ((NocSimulator \<times> int) outcome) option" where
  "run_ticks simulator nticks =
     (case NocSimulator_Tick simulator of
        Inl e \<Rightarrow> Some (Inl e)
      | Inr (converged, sim1) \<Rightarrow>
          if converged then Some (Inr (sim1, nticks + 1)) else run_ticks sim1 (nticks + 1))"

datatype Status = OkStatus | InternalError int int

text \<open>
  After the loop the source walks the connections to log them, and the comparison of
  \<^verbatim>\<open>nticks\<close> with \<^verbatim>\<open>max_ticks\<close> stands inside that walk: it is reached only when there is a
  connection. \<open>InternalError n c\<close> is the error whose message names \<open>n\<close> ticks and cycle \<open>c\<close>.
\<close>

definition RunCycle :: "NocSimulator \<Rightarrow> int \<Rightarrow> ((Status \<times> NocSimulator) outcome) option" where
  "RunCycle simulator max_ticks =
     (case run_ticks (simulator\<lparr>cycle_sim := cycle_sim simulator + 1\<rparr>) 0 of
        None \<Rightarrow> None
      | Some (Inl e) \<Rightarrow> Some (Inl e)
      | Some (Inr (sim1, nticks)) \<Rightarrow>
          Some (Inr (if connections sim1 \<noteq> [] \<and> max_ticks \<le> nticks
                     then InternalError nticks (cycle_sim sim1) else OkStatus,
                     sim1)))"

section \<open>The source interface as the specification words it\<close>

text \<open>
  Section 4.2 of the specification, steps 2 and 3: scan the VCs in ascending index; the
  first one whose send-queue head has a cycle not after the current one and whose credit
  is positive sends; if there is none, a bubble goes out. The result is the forward
  channel written, the send queues and the credits.
\<close>

definition spec_first_ready_vc :: "int \<Rightarrow> TimedDataPhit list list \<Rightarrow> int list \<Rightarrow> nat option" where
  "spec_first_ready_vc current_cycle queues credits =
     find (\<lambda>v. queues ! v \<noteq> [] \<and> cycle (hd (queues ! v)) \<le> current_cycle \<and> 0 < credits ! v)
       [0..<length queues]"

definition spec_src_forward ::
  "int \<Rightarrow> TimedDataPhit list list \<Rightarrow> int list \<Rightarrow>
   TimedDataPhit \<times> TimedDataPhit list list \<times> int list" where
  "spec_src_forward current_cycle queues credits =
     (case spec_first_ready_vc current_cycle queues credits of
        Some v \<Rightarrow>
          (\<lparr>cycle = current_cycle,
            phit = (phit (hd (queues ! v)))\<lparr>valid := True, vc := int v\<rparr>\<rparr>,
           queues[v := tl (queues ! v)],
           credits[v := credits ! v - 1])
      | None \<Rightarrow>
          (\<lparr>cycle = current_cycle,
            phit = \<lparr>valid = False, data = 0, vc = 0, destination_index = 0\<rparr>\<rparr>,
           queues, credits))"

section \<open>Vocabulary of the proofs\<close>

text \<open>
  What a method may do to the simulator: it rewrites connections in place. The cycle
  counter, the index store, the routing table, the component vectors, the number of
  connections and the number of reverse channels of each connection stay as they are.
\<close>

definition frame :: "NocSimulator \<Rightarrow> NocSimulator \<Rightarrow> bool" where
  "frame s t \<longleftrightarrow>
     (\<exists>cs. t = s\<lparr>connections := cs\<rparr> \<and> length cs = length (connections s) \<and>
        (\<forall>j < length cs. length (reverse_channels (cs ! j)) =
                          length (reverse_channels (connections s ! j))))"

text \<open>
  Non-negative credit counters, on every source and every router of a simulator.
\<close>

definition credit_nonnegative_src :: "SimNetworkInterfaceSrc \<Rightarrow> bool" where
  "credit_nonnegative_src nc = list_all (\<lambda>c. 0 \<le> c) (credit_src nc)"

definition credit_nonnegative_router :: "SimInputBufferedVCRouter \<Rightarrow> bool" where
  "credit_nonnegative_router nc = list_all (list_all (\<lambda>c. 0 \<le> c)) (credit_router nc)"

definition credits_nonnegative :: "NocSimulator \<Rightarrow> bool" where
  "credits_nonnegative simulator =
     (list_all credit_nonnegative_src (network_interface_sources simulator) \<and>
      list_all credit_nonnegative_router (routers simulator))"

text \<open>A component both of whose phases are done for cycle \<open>cur\<close>.\<close>

definition converged_at :: "int \<Rightarrow> 'a SimNetworkComponentBase_scheme \<Rightarrow> bool" where
  "converged_at cur nc =
     (forward_propagated_cycle nc = cur \<and> reverse_propagated_cycle nc = cur)"

text \<open>What an arbitration attempt at another input and VC leaves alone.\<close>

definition cell_untouched ::
  "SimInputBufferedVCRouter \<Rightarrow> NocSimulator \<Rightarrow> nat \<Rightarrow> nat \<Rightarrow>
   SimInputBufferedVCRouter \<times> NocSimulator \<Rightarrow> bool" where
  "cell_untouched nc s v i st =
     (length (input_buffers_router (fst st)) = length (input_buffers_router nc) \<and>
      length (input_buffers_router (fst st) ! i) = length (input_buffers_router nc ! i) \<and>
      input_buffers_router (fst st) ! i ! v = input_buffers_router nc ! i ! v \<and>
      id_nc (fst st) = id_nc nc \<and> routing (snd st) = routing s)"

text \<open>
  Stamps. A forward or reverse slot is stamped when it carries the current cycle;
  \<open>stamps_kept\<close> relates two simulators when the second keeps the frame and every stamp
  of the first, \<open>conn_kept\<close> is the same for one connection. A link has credited its
  upstream connection, a router has driven its outputs and credited its inputs, a sink has
  credited its connection, when the slots they write are stamped; a component is settled
  when each of its marks for the current cycle is backed by these stamps. The wiring of a
  component is the connection indices it was created with. \<open>driven_connection\<close> and
  \<open>credited_connection\<close> say that some component of the simulator writes the forward
  slot, respectively the reverse slots, of a connection.
\<close>

definition fwd_stamped :: "NocSimulator \<Rightarrow> nat \<Rightarrow> bool" where
  "fwd_stamped t j =
     (j < length (connections t) \<and>
      cycle (forward_channels (connections t ! j)) = cycle_sim t)"

definition rev_stamped :: "NocSimulator \<Rightarrow> nat \<Rightarrow> nat \<Rightarrow> bool" where
  "rev_stamped t j v =
     (j < length (connections t) \<and> v < length (reverse_channels (connections t ! j)) \<and>
      cycle (reverse_channels (connections t ! j) ! v) = cycle_sim t)"

definition all_rev_stamped :: "NocSimulator \<Rightarrow> nat \<Rightarrow> bool" where
  "all_rev_stamped t j =
     (j < length (connections t) \<and>
      (\<forall>v < length (reverse_channels (connections t ! j)). rev_stamped t j v))"

definition stamps_kept :: "NocSimulator \<Rightarrow> NocSimulator \<Rightarrow> bool" where
  "stamps_kept s t =
     (frame s t \<and> (\<forall>j. fwd_stamped s j \<longrightarrow> fwd_stamped t j) \<and>
      (\<forall>j v. rev_stamped s j v \<longrightarrow> rev_stamped t j v))"

definition conn_kept :: "int \<Rightarrow> SimConnectionState \<Rightarrow> SimConnectionState \<Rightarrow> bool" where
  "conn_kept k c c' =
     ((cycle (forward_channels c) = k \<longrightarrow> cycle (forward_channels c') = k) \<and>
      length (reverse_channels c') = length (reverse_channels c) \<and>
      (\<forall>v < length (reverse_channels c).
         cycle (reverse_channels c ! v) = k \<longrightarrow> cycle (reverse_channels c' ! v) = k))"

definition link_credited :: "SimLink \<Rightarrow> NocSimulator \<Rightarrow> bool" where
  "link_credited nc t =
     (sink_connection_index_link nc < length (connections t) \<and>
      (\<forall>v < length (reverse_channels (connections t ! sink_connection_index_link nc)).
         rev_stamped t (src_connection_index_link nc) v))"

definition router_wiring :: "SimInputBufferedVCRouter \<Rightarrow> nat \<times> nat \<times> nat \<times> nat" where
  "router_wiring nc =
     (input_connection_index_start nc, input_connection_count nc,
      output_connection_index_start nc, output_connection_count nc)"

definition router_driven :: "SimInputBufferedVCRouter \<Rightarrow> NocSimulator \<Rightarrow> bool" where
  "router_driven nc t =
     (\<forall>j \<in> set (GetConnectionIndicesStore t (output_connection_index_start nc)
                   (output_connection_count nc)). fwd_stamped t j)"

definition router_credited :: "SimInputBufferedVCRouter \<Rightarrow> NocSimulator \<Rightarrow> bool" where
  "router_credited nc t =
     (\<forall>j \<in> set (GetConnectionIndicesStore t (input_connection_index_start nc)
                   (input_connection_count nc)). all_rev_stamped t j)"

definition sink_credited :: "SimNetworkInterfaceSink \<Rightarrow> NocSimulator \<Rightarrow> bool" where
  "sink_credited nc t = all_rev_stamped t (src_connection_index_sink nc)"

definition router_unmoved :: "SimInputBufferedVCRouter \<Rightarrow> SimInputBufferedVCRouter \<Rightarrow> bool" where
  "router_unmoved nc m =
     (router_wiring m = router_wiring nc \<and>
      forward_propagated_cycle m = forward_propagated_cycle nc \<and>
      reverse_propagated_cycle m = reverse_propagated_cycle nc)"

definition src_settled :: "SimNetworkInterfaceSrc \<Rightarrow> NocSimulator \<Rightarrow> bool" where
  "src_settled nc t =
     (forward_propagated_cycle nc = cycle_sim t \<longrightarrow>
        fwd_stamped t (sink_connection_index_src nc))"

definition link_settled :: "SimLink \<Rightarrow> NocSimulator \<Rightarrow> bool" where
  "link_settled nc t =
     ((forward_propagated_cycle nc = cycle_sim t \<longrightarrow>
         fwd_stamped t (sink_connection_index_link nc)) \<and>
      (reverse_propagated_cycle nc = cycle_sim t \<longrightarrow> link_credited nc t))"

definition router_settled :: "SimInputBufferedVCRouter \<Rightarrow> NocSimulator \<Rightarrow> bool" where
  "router_settled nc t =
     ((forward_propagated_cycle nc = cycle_sim t \<longrightarrow> router_driven nc t) \<and>
      (reverse_propagated_cycle nc = cycle_sim t \<longrightarrow> router_credited nc t))"

definition sink_settled :: "SimNetworkInterfaceSink \<Rightarrow> NocSimulator \<Rightarrow> bool" where
  "sink_settled nc t =
     (forward_propagated_cycle nc = cycle_sim t \<longrightarrow> sink_credited nc t)"

definition stamps_settled :: "NocSimulator \<Rightarrow> bool" where
  "stamps_settled t =
     (list_all (\<lambda>nc. src_settled nc t) (network_interface_sources t) \<and>
      list_all (\<lambda>nc. link_settled nc t) (links t) \<and>
      list_all (\<lambda>nc. router_settled nc t) (routers t) \<and>
      list_all (\<lambda>nc. sink_settled nc t) (network_interface_sinks t))"

definition link_wiring :: "SimLink \<Rightarrow> nat \<times> nat" where
  "link_wiring nc = (src_connection_index_link nc, sink_connection_index_link nc)"

definition unmarked_for :: "int \<Rightarrow> 'a SimNetworkComponentBase_scheme \<Rightarrow> bool" where
  "unmarked_for k nc =
     (forward_propagated_cycle nc \<noteq> k \<and> reverse_propagated_cycle nc \<noteq> k)"

definition all_unmarked_for :: "int \<Rightarrow> NocSimulator \<Rightarrow> bool" where
  "all_unmarked_for k simulator =
     (list_all (unmarked_for k) (network_interface_sources simulator) \<and>
      list_all (unmarked_for k) (links simulator) \<and>
      list_all (unmarked_for k) (routers simulator) \<and>
      list_all (unmarked_for k) (network_interface_sinks simulator))"

definition driven_connection :: "NocSimulator \<Rightarrow> nat \<Rightarrow> bool" where
  "driven_connection simulator j =
     ((\<exists>nc \<in> set (network_interface_sources simulator). sink_connection_index_src nc = j) \<or>
      (\<exists>nc \<in> set (links simulator). sink_connection_index_link nc = j) \<or>
      (\<exists>nc \<in> set (routers simulator).
         j \<in> set (GetConnectionIndicesStore simulator (output_connection_index_start nc)
                    (output_connection_count nc))))"

definition credited_connection :: "NocSimulator \<Rightarrow> nat \<Rightarrow> bool" where
  "credited_connection simulator j =
     ((\<exists>nc \<in> set (network_interface_sinks simulator). src_connection_index_sink nc = j) \<or>
      (\<exists>nc \<in> set (routers simulator).
         j \<in> set (GetConnectionIndicesStore simulator (input_connection_index_start nc)
                    (input_connection_count nc))) \<or>
      (\<exists>nc \<in> set (links simulator).
         src_connection_index_link nc = j \<and>
         sink_connection_index_link nc < length (connections simulator) \<and>
         length (reverse_channels (connections simulator ! j)) \<le>
           length (reverse_channels (connections simulator ! sink_connection_index_link nc))))"

text \<open>
  What a router's forward propagation does to one output port: \<open>before\<close> and \<open>row0\<close> are
  the forward slot of the port's connection and the credits of the port when arbitration
  starts, \<open>after\<close> and \<open>row\<close> the same later. Either the slot has been stamped since, and
  then it carries a valid phit of a VC whose credit was positive and exactly that credit is
  one less; or the slot and the credits are as they were.
\<close>

definition credit_spent_on ::
  "int \<Rightarrow> TimedDataPhit \<Rightarrow> int list \<Rightarrow> TimedDataPhit \<Rightarrow> int list \<Rightarrow> bool" where
  "credit_spent_on cur before row0 after row =
     (if cycle after = cur \<and> cycle before \<noteq> cur
      then valid (phit after) \<and>
           (\<exists>v. vc (phit after) = int v \<and> v < length row0 \<and> 0 < row0 ! v \<and>
                row = row0[v := row0 ! v - 1])
      else after = before \<and> row = row0)"

text \<open>
  Routing failures. \<open>arbitration_queue\<close> is the queue of input \<open>i\<close> and VC \<open>v\<close> as the
  arbitration of a forward propagation finds it: the buffered phits, then the phit that
  the same propagation ingests from the input connection. \<open>unroutable_head\<close> says that the
  arbitration loops reach a queue \<open>q\<close> of that input and VC, that it is not empty and that
  the routing lookup of its head fails. A simulator is blocked by a route when a router
  that has not propagated forward in this cycle holds such a head in a buffer.
  \<open>buffers_shaped\<close> relates a router to a later state of it with the same identity and the
  same buffer sizes.
\<close>

definition arbitration_queue ::
  "NocSimulator \<Rightarrow> SimInputBufferedVCRouter \<Rightarrow> nat \<Rightarrow> nat \<Rightarrow> DataPhit list" where
  "arbitration_queue s nc i v =
     queue (input_buffers_router nc ! i ! v) @
     (let arriving = phit (forward_channels (connections s !
            (GetConnectionIndicesStore s (input_connection_index_start nc)
               (input_connection_count nc) ! i)))
      in if i < input_connection_count nc \<and> valid arriving \<and> vc arriving = int v
         then [arriving] else [])"

definition unroutable_head ::
  "NocSimulator \<Rightarrow> SimInputBufferedVCRouter \<Rightarrow> nat \<Rightarrow> nat \<Rightarrow> DataPhit list \<Rightarrow> bool" where
  "unroutable_head s nc i v q =
     (i < length (input_buffers_router nc) \<and> v < length (input_buffers_router nc ! i) \<and>
      v < max_vc nc \<and> q \<noteq> [] \<and>
      GetDestinationPortIndexAndVcIndex (routing s) (id_nc nc) (i, int v)
        (destination_index (hd q)) = None)"

definition blocked_by_route :: "NocSimulator \<Rightarrow> bool" where
  "blocked_by_route s =
     (\<exists>nc \<in> set (routers s).
        forward_propagated_cycle nc \<noteq> cycle_sim s \<and>
        (\<exists>i < length (input_buffers_router nc). \<exists>v < length (input_buffers_router nc ! i).
           unroutable_head s nc i v (queue (input_buffers_router nc ! i ! v))))"

definition buffers_shaped :: "SimInputBufferedVCRouter \<Rightarrow> SimInputBufferedVCRouter \<Rightarrow> bool" where
  "buffers_shaped nc m =
     (id_nc m = id_nc nc \<and> max_vc m = max_vc nc \<and>
      length (input_buffers_router m) = length (input_buffers_router nc) \<and>
      (\<forall>i. length (input_buffers_router m ! i) = length (input_buffers_router nc ! i)))"

section \<open>Example networks\<close>

text \<open>Concrete simulators on which the properties below are exercised.\<close>

definition no_routes :: DistributedRoutingTable where
  "no_routes =
     \<lparr>GetPortByIndex = (\<lambda>_ _. None), GetRouterOutputPortByIndex = (\<lambda>_ _. None),
      GetPortIndex = (\<lambda>_. None)\<rparr>"

definition example_phit :: DataPhit where
  "example_phit = \<lparr>valid = True, data = 10, vc = 0, destination_index = 0\<rparr>"

definition example_bubble :: DataPhit where
  "example_bubble = \<lparr>valid = False, data = 0, vc = 0, destination_index = 0\<rparr>"

text \<open>
  A one-stage link between connection 0 and connection 1, in cycle 1. Connection 0 already
  carries this cycle's phit and connection 1 this cycle's credit; the two arguments are
  the stamps of the slots the link itself drives.
\<close>

definition example_link :: SimLink where
  "example_link =
     \<lparr>id_nc = 1, forward_propagated_cycle = 0, reverse_propagated_cycle = 0,
      forward_pipeline_stages = 1, reverse_pipeline_stages = 1,
      src_connection_index_link = 0, sink_connection_index_link = 1,
      forward_data_stages = [], reverse_credit_stages = [[]]\<rparr>"

definition example_link_sim :: "int \<Rightarrow> int \<Rightarrow> NocSimulator" where
  "example_link_sim sink_forward_cycle src_reverse_cycle =
     \<lparr>cycle_sim = 1,
      connections =
        [\<lparr>connection_id = 0, forward_channels = \<lparr>cycle = 1, phit = example_phit\<rparr>,
          reverse_channels = [\<lparr>cycle = src_reverse_cycle, phit = \<lparr>valid = False, data = 0\<rparr>\<rparr>]\<rparr>,
         \<lparr>connection_id = 1,
          forward_channels = \<lparr>cycle = sink_forward_cycle, phit = example_bubble\<rparr>,
          reverse_channels = [\<lparr>cycle = 1, phit = \<lparr>valid = True, data = 1\<rparr>\<rparr>]\<rparr>],
      connection_indices_store = [],
      routing = no_routes,
      network_interface_sources = [], links = [example_link], routers = [],
      network_interface_sinks = []\<rparr>"

text \<open>
  A source with two VCs in cycle 1: VC 0 has a phit due but no credit, VC 1 has a phit due
  and a pending credit update of 2.
\<close>

definition example_src :: SimNetworkInterfaceSrc where
  "example_src =
     \<lparr>id_nc = 0, forward_propagated_cycle = 0, reverse_propagated_cycle = 0,
      data_to_send = [[\<lparr>cycle = 1, phit = example_phit\<rparr>],
                      [\<lparr>cycle = 1, phit = example_phit\<lparr>data := 11\<rparr>\<rparr>]],
      credit_src = [0, 0],
      credit_update_src = [\<lparr>credit_cycle = 0, credit = 0\<rparr>, \<lparr>credit_cycle = 0, credit = 2\<rparr>],
      sink_connection_index_src = 0\<rparr>"

definition example_src_sim :: "TimedDataPhit \<Rightarrow> NocSimulator" where
  "example_src_sim channel =
     \<lparr>cycle_sim = 1,
      connections =
        [\<lparr>connection_id = 0, forward_channels = channel,
          reverse_channels = [\<lparr>cycle = 0, phit = \<lparr>valid = False, data = 0\<rparr>\<rparr>,
                              \<lparr>cycle = 0, phit = \<lparr>valid = False, data = 0\<rparr>\<rparr>]\<rparr>],
      connection_indices_store = [],
      routing = no_routes,
      network_interface_sources = [example_src], links = [], routers = [],
      network_interface_sinks = []\<rparr>"

text \<open>
  A router with two input ports (connections 0 and 1) and one output port (connection 2),
  one VC everywhere, input buffers of depth 4, and a sink of depth 3 on connection 2. The
  routes send every input to the output port.
\<close>

definition example_routes :: DistributedRoutingTable where
  "example_routes =
     \<lparr>GetPortByIndex = (\<lambda>router_id i. Some i),
      GetRouterOutputPortByIndex = (\<lambda>from_port destination. Some (10, snd from_port)),
      GetPortIndex = (\<lambda>port. if port = 10 then Some 0 else None)\<rparr>"

definition example_router :: SimInputBufferedVCRouter where
  "example_router =
     \<lparr>id_nc = 7, forward_propagated_cycle = 0, reverse_propagated_cycle = 0,
      input_connection_index_start = 0, input_connection_count = 2,
      output_connection_index_start = 2, output_connection_count = 1,
      input_buffers_router = [[\<lparr>queue = [], max_queue_size = 4\<rparr>],
                              [\<lparr>queue = [], max_queue_size = 4\<rparr>]],
      input_credit_to_send = [[0], [0]],
      max_vc = 1,
      credit_router = [[1]],
      credit_update_router = [[\<lparr>credit_cycle = 0, credit = 0\<rparr>]],
      internal_propagated_cycle = 0\<rparr>"

definition example_connection :: "nat \<Rightarrow> TimedDataPhit \<Rightarrow> TimedMetadataPhit \<Rightarrow> SimConnectionState" where
  "example_connection n forward reverse =
     \<lparr>connection_id = n, forward_channels = forward, reverse_channels = [reverse]\<rparr>"

definition example_router_sim ::
  "int \<Rightarrow> DistributedRoutingTable \<Rightarrow> SimConnectionState list \<Rightarrow> NocSimulator" where
  "example_router_sim current_cycle routes cs =
     \<lparr>cycle_sim = current_cycle, connections = cs, connection_indices_store = [0, 1, 2],
      routing = routes,
      network_interface_sources = [], links = [], routers = [example_router],
      network_interface_sinks = []\<rparr>"

definition example_sink :: SimNetworkInterfaceSink where
  "example_sink =
     \<lparr>id_nc = 9, forward_propagated_cycle = 0, reverse_propagated_cycle = 0,
      input_buffers_sink = [\<lparr>queue = [], max_queue_size = 3\<rparr>],
      src_connection_index_sink = 2,
      received_traffic = []\<rparr>"

definition reset_connections :: "SimConnectionState list" where
  "reset_connections =
     [example_connection 0 \<lparr>cycle = 0, phit = example_bubble\<rparr>
        \<lparr>cycle = - 1, phit = \<lparr>valid = False, data = 0\<rparr>\<rparr>,
      example_connection 1 \<lparr>cycle = 0, phit = example_bubble\<rparr>
        \<lparr>cycle = - 1, phit = \<lparr>valid = False, data = 0\<rparr>\<rparr>,
      example_connection 2 \<lparr>cycle = 0, phit = example_bubble\<rparr>
        \<lparr>cycle = - 1, phit = \<lparr>valid = False, data = 0\<rparr>\<rparr>]"

text \<open>
  The same router in cycle 1 with one phit waiting in each input buffer, both routed to
  the one output, and two credits; \<open>example_router_won\<close> is the router after input 0 has won.
\<close>

definition example_router_loaded :: SimInputBufferedVCRouter where
  "example_router_loaded =
     example_router\<lparr>input_buffers_router :=
       [[\<lparr>queue = [example_phit], max_queue_size = 4\<rparr>],
        [\<lparr>queue = [example_phit\<lparr>data := 11\<rparr>], max_queue_size = 4\<rparr>]],
       credit_router := [[2]]\<rparr>"

definition arriving_connections :: "TimedDataPhit \<Rightarrow> SimConnectionState list" where
  "arriving_connections output_channel =
     [example_connection 0 \<lparr>cycle = 1, phit = example_bubble\<rparr>
        \<lparr>cycle = 0, phit = \<lparr>valid = False, data = 0\<rparr>\<rparr>,
      example_connection 1 \<lparr>cycle = 1, phit = example_bubble\<rparr>
        \<lparr>cycle = 0, phit = \<lparr>valid = False, data = 0\<rparr>\<rparr>,
      example_connection 2 output_channel
        \<lparr>cycle = 0, phit = \<lparr>valid = False, data = 0\<rparr>\<rparr>]"

definition example_router_won :: SimInputBufferedVCRouter where
  "example_router_won =
     example_router_loaded\<lparr>input_buffers_router :=
       [[\<lparr>queue = [], max_queue_size = 4\<rparr>],
        [\<lparr>queue = [example_phit\<lparr>data := 11\<rparr>], max_queue_size = 4\<rparr>]],
       credit_router := [[1]], input_credit_to_send := [[1], [0]]\<rparr>"

definition example_arriving_sim :: "TimedDataPhit \<Rightarrow> NocSimulator" where
  "example_arriving_sim output_channel =
     example_router_sim 1 example_routes (arriving_connections output_channel)"

text \<open>
  A source wired to a sink by connection 0, one VC, sink depth 3. At the start cycle 0 is
  over: the sink's grant of 3 credits has reached the source, and a phit is queued for
  cycle 1. \<open>example_net_sent\<close> is the simulator after the first tick of cycle 1 and
  \<open>example_net_converged\<close> after the second.
\<close>

definition example_net_src :: SimNetworkInterfaceSrc where
  "example_net_src =
     \<lparr>id_nc = 0, forward_propagated_cycle = 0, reverse_propagated_cycle = 0,
      data_to_send = [[\<lparr>cycle = 1, phit = example_phit\<rparr>]],
      credit_src = [0],
      credit_update_src = [\<lparr>credit_cycle = 0, credit = 3\<rparr>],
      sink_connection_index_src = 0\<rparr>"

definition example_net_sink :: SimNetworkInterfaceSink where
  "example_net_sink =
     \<lparr>id_nc = 9, forward_propagated_cycle = 0, reverse_propagated_cycle = 0,
      input_buffers_sink = [\<lparr>queue = [], max_queue_size = 3\<rparr>],
      src_connection_index_sink = 0,
      received_traffic = []\<rparr>"

definition example_net ::
  "int \<Rightarrow> SimConnectionState \<Rightarrow> SimNetworkInterfaceSrc \<Rightarrow> SimNetworkInterfaceSink \<Rightarrow>
   NocSimulator" where
  "example_net current_cycle c src sink =
     \<lparr>cycle_sim = current_cycle, connections = [c], connection_indices_store = [],
      routing = no_routes,
      network_interface_sources = [src], links = [], routers = [],
      network_interface_sinks = [sink]\<rparr>"

definition example_net_start :: NocSimulator where
  "example_net_start =
     example_net 0
       (example_connection 0 \<lparr>cycle = 0, phit = example_bubble\<rparr>
          \<lparr>cycle = 0, phit = \<lparr>valid = True, data = 3\<rparr>\<rparr>)
       example_net_src example_net_sink"

definition example_net_sent :: NocSimulator where
  "example_net_sent =
     example_net 1
       (example_connection 0 \<lparr>cycle = 1, phit = example_phit\<rparr>
          \<lparr>cycle = 1, phit = \<lparr>valid = True, data = 1\<rparr>\<rparr>)
       (example_net_src\<lparr>forward_propagated_cycle := 1, data_to_send := [[]],
          credit_src := [2]\<rparr>)
       (example_net_sink\<lparr>forward_propagated_cycle := 1, reverse_propagated_cycle := 1,
          received_traffic := [\<lparr>cycle = 1, phit = example_phit\<rparr>]\<rparr>)"

definition example_net_converged :: NocSimulator where
  "example_net_converged =
     example_net 1
       (example_connection 0 \<lparr>cycle = 1, phit = example_phit\<rparr>
          \<lparr>cycle = 1, phit = \<lparr>valid = True, data = 1\<rparr>\<rparr>)
       (example_net_src\<lparr>forward_propagated_cycle := 1, reverse_propagated_cycle := 1,
          data_to_send := [[]], credit_src := [2],
          credit_update_src := [\<lparr>credit_cycle = 1, credit = 1\<rparr>]\<rparr>)
       (example_net_sink\<lparr>forward_propagated_cycle := 1, reverse_propagated_cycle := 1,
          received_traffic := [\<lparr>cycle = 1, phit = example_phit\<rparr>]\<rparr>)"

text \<open>
  Two routers in a ring, each with one input and one output port: router 1 reads
  connection 1 and drives connection 0, router 2 reads connection 0 and drives
  connection 1. Credits, stamps and marks are those of freshly created objects.
\<close>

definition ring_router :: "nat \<Rightarrow> nat \<Rightarrow> int \<Rightarrow> SimInputBufferedVCRouter" where
  "ring_router router_id store_start internal =
     \<lparr>id_nc = router_id, forward_propagated_cycle = 0, reverse_propagated_cycle = 0,
      input_connection_index_start = store_start, input_connection_count = 1,
      output_connection_index_start = store_start + 1, output_connection_count = 1,
      input_buffers_router = [[\<lparr>queue = [], max_queue_size = 4\<rparr>]],
      input_credit_to_send = [[0]],
      max_vc = 1,
      credit_router = [[0]],
      credit_update_router = [[\<lparr>credit_cycle = 0, credit = 0\<rparr>]],
      internal_propagated_cycle = internal\<rparr>"

definition ring_sim :: "int \<Rightarrow> NocSimulator" where
  "ring_sim current_cycle =
     \<lparr>cycle_sim = current_cycle,
      connections =
        [example_connection 0 \<lparr>cycle = 0, phit = example_bubble\<rparr>
           \<lparr>cycle = 0, phit = \<lparr>valid = False, data = 0\<rparr>\<rparr>,
         example_connection 1 \<lparr>cycle = 0, phit = example_bubble\<rparr>
           \<lparr>cycle = 0, phit = \<lparr>valid = False, data = 0\<rparr>\<rparr>],
      connection_indices_store = [1, 0, 0, 1],
      routing = example_routes,
      network_interface_sources = [], links = [],
      routers = [ring_router 1 0 current_cycle, ring_router 2 2 current_cycle],
      network_interface_sinks = []\<rparr>"

text \<open>
  A source, a router and a sink in a row (connections 0 and 1), with a routing table that
  sends every input to port 99, which is not an output port of the router.
  \<open>bad_route_router\<close> is the router once the phit of the source is in its input buffer.
\<close>

definition bad_routes :: DistributedRoutingTable where
  "bad_routes =
     \<lparr>GetPortByIndex = (\<lambda>router_id i. Some i),
      GetRouterOutputPortByIndex = (\<lambda>from_port destination. Some (99, snd from_port)),
      GetPortIndex = (\<lambda>port. if port = 10 then Some 0 else None)\<rparr>"

definition bad_route_sim :: "int \<Rightarrow> TimedDataPhit \<Rightarrow> NocSimulator" where
  "bad_route_sim current_cycle channel =
     \<lparr>cycle_sim = current_cycle,
      connections =
        [example_connection 0 channel \<lparr>cycle = 0, phit = \<lparr>valid = True, data = 3\<rparr>\<rparr>,
         example_connection 1 \<lparr>cycle = 0, phit = example_bubble\<rparr>
           \<lparr>cycle = 0, phit = \<lparr>valid = True, data = 3\<rparr>\<rparr>],
      connection_indices_store = [0, 1],
      routing = bad_routes,
      network_interface_sources = [example_net_src], links = [],
      routers = [ring_router 7 0 0],
      network_interface_sinks = [example_net_sink\<lparr>src_connection_index_sink := 1\<rparr>]\<rparr>"

definition bad_route_router :: SimInputBufferedVCRouter where
  "bad_route_router =
     (ring_router 7 0 1)\<lparr>input_buffers_router :=
        [[\<lparr>queue = [example_phit], max_queue_size = 4\<rparr>]]\<rparr>"

text \<open>
  A source whose port has no virtual channel, as \<^verbatim>\<open>InitializeImpl\<close> sizes it, driving
  connection 0, which nothing reads. \<open>dangling_start\<close> is the simulator before cycle 1
  and \<open>dangling_converged\<close> after its only tick.
\<close>

definition dangling_src :: SimNetworkInterfaceSrc where
  "dangling_src =
     \<lparr>id_nc = 0, forward_propagated_cycle = 0, reverse_propagated_cycle = 0,
      data_to_send = [], credit_src = [], credit_update_src = [],
      sink_connection_index_src = 0\<rparr>"

definition dangling_net ::
  "int \<Rightarrow> SimNetworkInterfaceSrc \<Rightarrow> TimedDataPhit \<Rightarrow> NocSimulator" where
  "dangling_net current_cycle src forward =
     \<lparr>cycle_sim = current_cycle,
      connections =
        [example_connection 0 forward \<lparr>cycle = 0, phit = \<lparr>valid = False, data = 0\<rparr>\<rparr>],
      connection_indices_store = [], routing = no_routes,
      network_interface_sources = [src], links = [], routers = [],
      network_interface_sinks = []\<rparr>"

definition dangling_start :: NocSimulator where
  "dangling_start = dangling_net 0 dangling_src \<lparr>cycle = 0, phit = example_bubble\<rparr>"

definition dangling_converged :: NocSimulator where
  "dangling_converged =
     dangling_net 1
       (dangling_src\<lparr>forward_propagated_cycle := 1, reverse_propagated_cycle := 1\<rparr>)
       \<lparr>cycle = 1, phit = example_bubble\<rparr>"

text \<open>
  The same router with the phit already in its buffer and nothing driving its input: in
  cycle 1 it waits for connection 0 to be stamped.
\<close>

definition bad_route_waiting :: "int \<Rightarrow> NocSimulator" where
  "bad_route_waiting current_cycle =
     (bad_route_sim current_cycle \<lparr>cycle = 0, phit = example_bubble\<rparr>)
       \<lparr>network_interface_sources := [], routers := [bad_route_router],
        network_interface_sinks := []\<rparr>"

section \<open>Properties\<close>

subsection \<open>Sequencing and vector access\<close>

lemma and_then_Inl [simp]: "and_then (Inl e) f = Inl e"
  by (simp add: and_then_def)

lemma and_then_Inr [simp]: "and_then (Inr x) f = f x"
  by (simp add: and_then_def)

lemma and_then_eq_Inr: "(and_then m f = Inr y) = (\<exists>x. m = Inr x \<and> f x = Inr y)"
  by (cases m) simp_all

lemma vec_index_eq_Inr [simp]: "(vec_index xs i = Inr x) = (i < length xs \<and> x = xs ! i)"
  by (auto simp: vec_index_def)

lemma vec_at_eq_Inr [simp]: "(vec_at xs i = Inr x) = (i < length xs \<and> x = xs ! i)"
  by (auto simp: vec_at_def)

lemma GetSimConnectionByIndex_eq_Inr [simp]:
  "(GetSimConnectionByIndex s i = Inr c) = (i < length (connections s) \<and> c = connections s ! i)"
  by (simp add: GetSimConnectionByIndex_def)

lemma put_connection_same [simp]:
  "i < length (connections s) \<Longrightarrow> put_connection i (connections s ! i) s = s"
  by (simp add: put_connection_def)

subsection \<open>The pipeline\<close>

text \<open>
  Claim C9. On any pipeline lane, forward data or reverse credit, when the upstream slot
  and the downstream slot both carry the current cycle, a propagation attempt returns
  success, and the downstream slot and the FIFO it returns are the ones it was given. The
  upstream slot is only read.
\<close>

theorem pipeline_stamped_is_noop:
  "cycle from_channel = current_cycle \<Longrightarrow> cycle to_channel = current_cycle \<Longrightarrow>
   TryPropagation current_cycle stage_count from_channel to_channel state =
     (True, to_channel, state)"
  by (simp add: TryPropagation_def)

theorem pipeline_stamped_is_noop_witness:
  "cycle \<lparr>cycle = 3, phit = \<lparr>valid = True, data = 10\<rparr>\<rparr> = (3::int) \<and>
   cycle \<lparr>cycle = 3, phit = \<lparr>valid = False, data = 0\<rparr>\<rparr> = (3::int) \<and>
   TryPropagation 3 1 \<lparr>cycle = 3, phit = \<lparr>valid = True, data = 10\<rparr>\<rparr>
     \<lparr>cycle = 3, phit = \<lparr>valid = False, data = 0\<rparr>\<rparr> [\<lparr>valid = True, data = 7\<rparr>] =
   (True, \<lparr>cycle = 3, phit = \<lparr>valid = False, data = 0\<rparr>\<rparr>, [\<lparr>valid = True, data = 7\<rparr>])"
  using pipeline_stamped_is_noop
    [of "\<lparr>cycle = 3, phit = \<lparr>valid = True, data = 10\<rparr>\<rparr>" 3
        "\<lparr>cycle = 3, phit = \<lparr>valid = False, data = 0\<rparr>\<rparr>" 1 "[\<lparr>valid = True, data = 7\<rparr>]"]
  by simp

lemma TryPropagation_returns:
  "fst (TryPropagation cur n f t st) = (cycle f = cur \<and> cycle t = cur)"
  by (simp add: TryPropagation_def Let_def)

lemma TryPropagation_True_unchanged:
  "TryPropagation cur n f t st = (True, t', st') \<Longrightarrow>
   t' = t \<and> st' = st \<and> cycle f = cur \<and> cycle t = cur"
  by (auto simp: TryPropagation_def Let_def split: if_splits)

lemma TryPropagation_moves:
  "cycle f = cur \<Longrightarrow> cycle t \<noteq> cur \<Longrightarrow>
   TryPropagation cur n f t st =
     (False,
      \<lparr>cycle = cur,
       phit = (if size_gt (length st + 1) n then hd (st @ [phit f])
               else (phit t)\<lparr>valid := False, data := 0\<rparr>)\<rparr>,
      if size_gt (length st + 1) n then tl (st @ [phit f]) else st @ [phit f])"
  by (simp add: TryPropagation_def Let_def)

lemma link_forward_True:
  "SimLink_TryForwardPropagation nc s = Inr (True, nc', s') \<Longrightarrow>
     s' = s \<and> forward_data_stages nc' = forward_data_stages nc \<and>
     reverse_credit_stages nc' = reverse_credit_stages nc \<and>
     cycle (forward_channels (connections s ! sink_connection_index_link nc)) = GetCurrentCycle s"
  by (auto simp: SimLink_TryForwardPropagation_def and_then_eq_Inr Let_def
           split: prod.splits if_splits dest!: TryPropagation_True_unchanged)

lemma link_reverse_lane_count:
  "link_reverse_lane v (nc, s, k) = Inr (nc', s', k') \<Longrightarrow>
   (k' = k \<or> k' = k + 1) \<and> (k' = k + 1 \<longrightarrow> nc' = nc \<and> s' = s)"
  by (auto simp: link_reverse_lane_def and_then_eq_Inr Let_def
           split: prod.splits if_splits dest!: TryPropagation_True_unchanged)

lemma link_reverse_loop_count:
  "for_each vs link_reverse_lane (nc, s, k) = Inr (nc', s', k') \<Longrightarrow>
   k \<le> k' \<and> k' \<le> k + length vs \<and> (k' = k + length vs \<longrightarrow> nc' = nc \<and> s' = s)"
proof (induction vs arbitrary: nc s k)
  case Nil
  then show ?case by simp
next
  case (Cons v vs)
  from Cons.prems obtain nc1 s1 k1 where
    lane: "link_reverse_lane v (nc, s, k) = Inr (nc1, s1, k1)" and
    rest: "for_each vs link_reverse_lane (nc1, s1, k1) = Inr (nc', s', k')"
    by (auto simp: and_then_eq_Inr)
  from link_reverse_lane_count [OF lane] Cons.IH [OF rest] show ?case
    by auto
qed

lemma link_reverse_True:
  "SimLink_TryReversePropagation nc s = Inr (True, nc', s') \<Longrightarrow>
     s' = s \<and> forward_data_stages nc' = forward_data_stages nc \<and>
     reverse_credit_stages nc' = reverse_credit_stages nc"
  by (auto simp: SimLink_TryReversePropagation_def and_then_eq_Inr Let_def
           split: prod.splits if_splits dest!: link_reverse_loop_count)

lemma forward_phase_Inr:
  "forward_phase f cur nc s = Inr (b, nc', s') \<Longrightarrow>
   (forward_propagated_cycle nc = cur \<and> b \<and> nc' = nc \<and> s' = s) \<or>
   (forward_propagated_cycle nc \<noteq> cur \<and>
    (\<exists>nc0. f nc s = Inr (b, nc0, s') \<and>
       nc' = (if b then nc0\<lparr>forward_propagated_cycle := cur\<rparr> else nc0)))"
  by (auto simp: forward_phase_def and_then_eq_Inr split: if_splits)

lemma reverse_phase_Inr:
  "reverse_phase f cur nc s = Inr (b, nc', s') \<Longrightarrow>
   (reverse_propagated_cycle nc = cur \<and> b \<and> nc' = nc \<and> s' = s) \<or>
   (reverse_propagated_cycle nc \<noteq> cur \<and>
    (\<exists>nc0. f nc s = Inr (b, nc0, s') \<and>
       nc' = (if b then nc0\<lparr>reverse_propagated_cycle := cur\<rparr> else nc0)))"
  by (auto simp: reverse_phase_def and_then_eq_Inr split: if_splits)

lemma base_Tick_Inr:
  "SimNetworkComponentBase_Tick f r nc s = Inr (b, nc', s') \<Longrightarrow>
   \<exists>b1 nc1 s1 b2.
     forward_phase f (GetCurrentCycle s) nc s = Inr (b1, nc1, s1) \<and>
     reverse_phase r (GetCurrentCycle s) nc1 s1 = Inr (b2, nc', s') \<and> b = (b1 \<and> b2)"
  by (auto simp: SimNetworkComponentBase_Tick_def and_then_eq_Inr Let_def)

lemma link_Tick_True:
  "SimLink_Tick nc s = Inr (True, nc', s') \<Longrightarrow>
     s' = s \<and> forward_data_stages nc' = forward_data_stages nc \<and>
     reverse_credit_stages nc' = reverse_credit_stages nc"
  unfolding SimLink_Tick_def
  by (auto dest!: base_Tick_Inr forward_phase_Inr reverse_phase_Inr
        link_forward_True link_reverse_True  split: if_splits)


text \<open>
  Claim C10. A propagation attempt returns true exactly when both slots already carry the
  current cycle. On the attempt that consumes the upstream phit and drives the downstream
  slot it returns false. So a forward propagation of a link that finds its output slot
  not yet stamped fails, and it takes a later tick to succeed; and a tick of a link that
  reports convergence has moved nothing: the simulator and both FIFOs are unchanged.
\<close>

theorem link_needs_second_tick:
  "(\<forall>cur n f t st. fst (TryPropagation cur n f t st) = (cycle f = cur \<and> cycle t = cur)) \<and>
   (\<forall>cur n f t st. cycle f = cur \<and> cycle t \<noteq> cur \<longrightarrow>
      TryPropagation cur n f t st =
        (False,
         \<lparr>cycle = cur,
          phit = (if size_gt (length st + 1) n then hd (st @ [phit f])
                  else (phit t)\<lparr>valid := False, data := 0\<rparr>)\<rparr>,
         if size_gt (length st + 1) n then tl (st @ [phit f]) else st @ [phit f])) \<and>
   (\<forall>nc s b nc' s'.
      cycle (forward_channels (connections s ! sink_connection_index_link nc)) \<noteq> GetCurrentCycle s \<and>
      SimLink_TryForwardPropagation nc s = Inr (b, nc', s') \<longrightarrow> \<not> b) \<and>
   (\<forall>nc s nc' s'.
      SimLink_Tick nc s = Inr (True, nc', s') \<longrightarrow>
      s' = s \<and> forward_data_stages nc' = forward_data_stages nc \<and>
      reverse_credit_stages nc' = reverse_credit_stages nc)"
proof (intro conjI allI impI)
  fix cur n and f t :: "'a MetadataPhit_scheme TimedPhit" and st
  show "fst (TryPropagation cur n f t st) = (cycle f = cur \<and> cycle t = cur)"
    by (rule TryPropagation_returns)
next
  fix cur n and f t :: "'b MetadataPhit_scheme TimedPhit" and st
  assume "cycle f = cur \<and> cycle t \<noteq> cur"
  then show "TryPropagation cur n f t st =
        (False,
         \<lparr>cycle = cur,
          phit = (if size_gt (length st + 1) n then hd (st @ [phit f])
                  else (phit t)\<lparr>valid := False, data := 0\<rparr>)\<rparr>,
         if size_gt (length st + 1) n then tl (st @ [phit f]) else st @ [phit f])"
    by (simp add: TryPropagation_moves)
next
  fix nc s b nc' s'
  assume a: "cycle (forward_channels (connections s ! sink_connection_index_link nc)) \<noteq>
               GetCurrentCycle s \<and>
             SimLink_TryForwardPropagation nc s = Inr (b, nc', s')"
  show "\<not> b"
  proof
    assume b
    with a have "SimLink_TryForwardPropagation nc s = Inr (True, nc', s')" by simp
    from link_forward_True [OF this] a show False by simp
  qed
next
  fix nc s nc' s'
  assume "SimLink_Tick nc s = Inr (True, nc', s')"
  from link_Tick_True [OF this]
  show "s' = s" "forward_data_stages nc' = forward_data_stages nc"
    "reverse_credit_stages nc' = reverse_credit_stages nc"
    by simp_all
qed

lemmas example_link_defs =
  example_link_def example_link_sim_def example_phit_def example_bubble_def

lemma example_link_moves:
  "SimLink_TryForwardPropagation example_link (example_link_sim 0 0) =
     Inr (False, example_link\<lparr>forward_data_stages := [example_phit]\<rparr>, example_link_sim 1 0)"
  by (simp add: SimLink_TryForwardPropagation_def example_link_defs TryPropagation_def
        size_gt_def GetCurrentCycle_def put_connection_def Let_def GetSimConnectionByIndex_def
        vec_index_def)

lemma example_link_converged:
  "SimLink_Tick example_link (example_link_sim 1 1) =
     Inr (True, example_link\<lparr>forward_propagated_cycle := 1, reverse_propagated_cycle := 1\<rparr>,
          example_link_sim 1 1)"
  by (simp add: SimLink_Tick_def SimNetworkComponentBase_Tick_def forward_phase_def
        reverse_phase_def SimLink_TryReversePropagation_def link_reverse_lane_def
        SimLink_TryForwardPropagation_def example_link_defs TryPropagation_def size_gt_def
        GetCurrentCycle_def put_connection_def Let_def GetSimConnectionByIndex_def
        vec_index_def vec_at_def)

theorem link_needs_second_tick_witness:
  "cycle (forward_channels (connections (example_link_sim 0 0) !
            sink_connection_index_link example_link)) \<noteq> GetCurrentCycle (example_link_sim 0 0) \<and>
   SimLink_TryForwardPropagation example_link (example_link_sim 0 0) =
     Inr (False, example_link\<lparr>forward_data_stages := [example_phit]\<rparr>, example_link_sim 1 0) \<and>
   SimLink_Tick example_link (example_link_sim 1 1) =
     Inr (True, example_link\<lparr>forward_propagated_cycle := 1, reverse_propagated_cycle := 1\<rparr>,
          example_link_sim 1 1) \<and>
   forward_data_stages
     (example_link\<lparr>forward_propagated_cycle := 1, reverse_propagated_cycle := 1\<rparr>) =
   forward_data_stages example_link \<and>
   TryPropagation 1 1 \<lparr>cycle = 1, phit = example_phit\<rparr> \<lparr>cycle = 0, phit = example_bubble\<rparr> [] =
     (False, \<lparr>cycle = 1, phit = example_bubble\<rparr>, [example_phit])"
proof -
  have stale: "cycle (forward_channels (connections (example_link_sim 0 0) !
      sink_connection_index_link example_link)) \<noteq> GetCurrentCycle (example_link_sim 0 0)"
    by (simp add: example_link_defs GetCurrentCycle_def)
  have lane: "cycle \<lparr>cycle = 1, phit = example_phit\<rparr> = (1::int) \<and>
      cycle \<lparr>cycle = 0, phit = example_bubble\<rparr> \<noteq> (1::int)"
    by simp
  from link_needs_second_tick have
    "forward_data_stages
       (example_link\<lparr>forward_propagated_cycle := 1, reverse_propagated_cycle := 1\<rparr>) =
     forward_data_stages example_link"
    using example_link_converged by blast
  moreover have
    "TryPropagation 1 1 \<lparr>cycle = 1, phit = example_phit\<rparr> \<lparr>cycle = 0, phit = example_bubble\<rparr> [] =
       (False, \<lparr>cycle = 1, phit = example_bubble\<rparr>, [example_phit])"
    using link_needs_second_tick [THEN conjunct2, THEN conjunct1, THEN spec, THEN spec,
        THEN spec, THEN spec, THEN spec, THEN mp, OF lane, of 1 "[]"]
    by (simp add: size_gt_def example_link_defs)
  ultimately show ?thesis
    using stale example_link_moves example_link_converged by simp
qed

subsection \<open>The source interface\<close>

lemma DataPhit_overwritten:
  "(p::DataPhit)\<lparr>valid := a, data := b, vc := c, destination_index := d\<rparr> =
   \<lparr>valid = a, data = b, vc = c, destination_index = d\<rparr>"
  by (cases p) simp

lemma src_update_credits_Inr:
  "\<forall>v \<in> set vs. v < length (credit_src nc) \<and> v < length (credit_update_src nc) \<Longrightarrow>
   \<exists>cs. length cs = length (credit_src nc) \<and>
        for_each vs src_update_credit nc = Inr (nc\<lparr>credit_src := cs\<rparr>)"
proof (induction vs arbitrary: nc)
  case Nil
  show ?case by (rule exI [of _ "credit_src nc"]) simp
next
  case (Cons v vs)
  let ?nc1 = "if 0 < credit (credit_update_src nc ! v)
              then nc\<lparr>credit_src := (credit_src nc)
                     [v := credit_src nc ! v + credit (credit_update_src nc ! v)]\<rparr>
              else nc"
  have step: "src_update_credit v nc = Inr ?nc1"
    using Cons.prems by (simp add: src_update_credit_def vec_index_def)
  have "\<forall>w \<in> set vs. w < length (credit_src ?nc1) \<and> w < length (credit_update_src ?nc1)"
    using Cons.prems by simp
  from Cons.IH [OF this] obtain cs where
    cs: "length cs = length (credit_src ?nc1)"
        "for_each vs src_update_credit ?nc1 = Inr (?nc1\<lparr>credit_src := cs\<rparr>)"
    by blast
  show ?case
    by (rule exI [of _ cs]) (use cs step in \<open>auto split: if_splits\<close>)
qed

lemma src_send_data_find:
  "\<forall>v \<in> set vs. v < length (data_to_send nc) \<and> v < length (credit_src nc) \<Longrightarrow>
   i = sink_connection_index_src nc \<Longrightarrow> i < length (connections s) \<Longrightarrow>
   src_send_data vs cur nc s =
     (case find (\<lambda>v. data_to_send nc ! v \<noteq> [] \<and> cycle (hd (data_to_send nc ! v)) \<le> cur \<and>
                     0 < credit_src nc ! v) vs of
        None \<Rightarrow> Inr (False, nc, s)
      | Some v \<Rightarrow>
          Inr (True,
               nc\<lparr>credit_src := (credit_src nc)[v := credit_src nc ! v - 1],
                  data_to_send := (data_to_send nc)[v := tl (data_to_send nc ! v)]\<rparr>,
               put_connection i
                 ((connections s ! i)\<lparr>forward_channels :=
                    \<lparr>cycle = cur,
                     phit = (phit (hd (data_to_send nc ! v)))\<lparr>valid := True, vc := int v\<rparr>\<rparr>\<rparr>)
                 s))"
  by (induction vs) (auto simp: vec_index_def GetSimConnectionByIndex_def)

text \<open>
  Claim C6. On a source whose three per-VC vectors have one length and whose connection
  index is valid (the initializer establishes both), forward propagation returns true in
  the call that runs it, and after its credit loop it does what the specification words:
  the first VC in ascending order whose queue head is due and whose credit is positive
  sends its phit, with \<open>valid\<close> set, \<open>vc\<close> overridden by the scan index and the current
  cycle stamped, the queue popped and the credit decremented; without such a VC a zeroed
  bubble goes out with the current cycle.
\<close>

theorem src_forward_refines_spec:
  assumes sizes: "length (credit_update_src nc) = length (credit_src nc)"
                 "length (data_to_send nc) = length (credit_src nc)"
      and index: "sink_connection_index_src nc < length (connections s)"
  shows "\<exists>nc1. for_each [0..<length (credit_src nc)] src_update_credit nc = Inr nc1 \<and>
           data_to_send nc1 = data_to_send nc \<and>
           (case spec_src_forward (GetCurrentCycle s) (data_to_send nc1) (credit_src nc1) of
              (channel, queues, credits) \<Rightarrow>
                SimNetworkInterfaceSrc_TryForwardPropagation nc s =
                  Inr (True,
                       nc1\<lparr>credit_src := credits, data_to_send := queues,
                           forward_propagated_cycle := GetCurrentCycle s\<rparr>,
                       put_connection (sink_connection_index_src nc)
                         ((connections s ! sink_connection_index_src nc)
                            \<lparr>forward_channels := channel\<rparr>) s))"
proof -
  from sizes have "\<forall>v \<in> set [0..<length (credit_src nc)].
      v < length (credit_src nc) \<and> v < length (credit_update_src nc)"
    by simp
  from src_update_credits_Inr [OF this] obtain cs where
    cs: "length cs = length (credit_src nc)"
        "for_each [0..<length (credit_src nc)] src_update_credit nc = Inr (nc\<lparr>credit_src := cs\<rparr>)"
    by blast
  let ?nc1 = "nc\<lparr>credit_src := cs\<rparr>"
  have range: "\<forall>v \<in> set [0..<length (data_to_send ?nc1)].
      v < length (data_to_send ?nc1) \<and> v < length (credit_src ?nc1)"
    using sizes cs by simp
  have send: "src_send_data [0..<length (data_to_send ?nc1)] (GetCurrentCycle s) ?nc1 s = 
     (case find (\<lambda>v. data_to_send ?nc1 ! v \<noteq> [] \<and> cycle (hd (data_to_send ?nc1 ! v)) \<le> GetCurrentCycle s \<and>
                     0 < credit_src ?nc1 ! v) [0..<length (data_to_send ?nc1)] of
        None \<Rightarrow> Inr (False, ?nc1, s)
      | Some v \<Rightarrow>
          Inr (True,
               ?nc1\<lparr>credit_src := (credit_src ?nc1)[v := credit_src ?nc1 ! v - 1],
                  data_to_send := (data_to_send ?nc1)[v := tl (data_to_send ?nc1 ! v)]\<rparr>,
               put_connection (sink_connection_index_src nc)
                 ((connections s ! sink_connection_index_src nc)\<lparr>forward_channels :=
                    \<lparr>cycle = GetCurrentCycle s,
                     phit = (phit (hd (data_to_send ?nc1 ! v)))\<lparr>valid := True, vc := int v\<rparr>\<rparr>\<rparr>)
                 s))"
    by (rule src_send_data_find [OF range _ index]) simp
  note send' = send [simplified]
  show ?thesis
  proof (rule exI [of _ ?nc1], intro conjI)
    show "for_each [0..<length (credit_src nc)] src_update_credit nc = Inr ?nc1"
      by (rule cs)
    show "data_to_send ?nc1 = data_to_send nc"
      by simp
    show "case spec_src_forward (GetCurrentCycle s) (data_to_send ?nc1) (credit_src ?nc1) of
              (channel, queues, credits) \<Rightarrow>
                SimNetworkInterfaceSrc_TryForwardPropagation nc s =
                  Inr (True,
                       ?nc1\<lparr>credit_src := credits, data_to_send := queues,
                           forward_propagated_cycle := GetCurrentCycle s\<rparr>,
                       put_connection (sink_connection_index_src nc)
                         ((connections s ! sink_connection_index_src nc)
                            \<lparr>forward_channels := channel\<rparr>) s)"
      using index
      by (simp add: cs SimNetworkInterfaceSrc_TryForwardPropagation_def Let_def send'
            spec_src_forward_def spec_first_ready_vc_def put_connection_def
            GetSimConnectionByIndex_def vec_index_def DataPhit_overwritten
            split: option.splits)
  qed
qed


lemma example_src_credits:
  "for_each [0..<length (credit_src example_src)] src_update_credit example_src =
     Inr (example_src\<lparr>credit_src := [0, 2]\<rparr>)"
  by (simp add: example_src_def src_update_credit_def vec_index_def upt_rec)

theorem src_forward_refines_spec_witness:
  "length (credit_update_src example_src) = length (credit_src example_src) \<and>
   length (data_to_send example_src) = length (credit_src example_src) \<and>
   sink_connection_index_src example_src
     < length (connections (example_src_sim \<lparr>cycle = 0, phit = example_bubble\<rparr>)) \<and>
   SimNetworkInterfaceSrc_TryForwardPropagation example_src
       (example_src_sim \<lparr>cycle = 0, phit = example_bubble\<rparr>) =
     Inr (True,
          example_src\<lparr>credit_src := [0, 1],
                      data_to_send := [[\<lparr>cycle = 1, phit = example_phit\<rparr>], []],
                      forward_propagated_cycle := 1\<rparr>,
          example_src_sim \<lparr>cycle = 1, phit = example_phit\<lparr>data := 11, vc := 1\<rparr>\<rparr>)"
proof -
  let ?s = "example_src_sim \<lparr>cycle = 0, phit = example_bubble\<rparr>"
  have h1: "length (credit_update_src example_src) = length (credit_src example_src)"
    and h2: "length (data_to_send example_src) = length (credit_src example_src)"
    and h3: "sink_connection_index_src example_src < length (connections ?s)"
    by (simp_all add: example_src_def example_src_sim_def)
  from src_forward_refines_spec [OF h1 h2 h3] example_src_credits
  have "case spec_src_forward (GetCurrentCycle ?s) (data_to_send example_src) [0, 2] of
          (channel, queues, credits) \<Rightarrow>
            SimNetworkInterfaceSrc_TryForwardPropagation example_src ?s =
              Inr (True,
                   example_src\<lparr>credit_src := credits, data_to_send := queues,
                       forward_propagated_cycle := GetCurrentCycle ?s\<rparr>,
                   put_connection (sink_connection_index_src example_src)
                     ((connections ?s ! sink_connection_index_src example_src)
                        \<lparr>forward_channels := channel\<rparr>) ?s)"
    by auto
  then have "SimNetworkInterfaceSrc_TryForwardPropagation example_src ?s =
     Inr (True,
          example_src\<lparr>credit_src := [0, 1],
                      data_to_send := [[\<lparr>cycle = 1, phit = example_phit\<rparr>], []],
                      forward_propagated_cycle := 1\<rparr>,
          example_src_sim \<lparr>cycle = 1, phit = example_phit\<lparr>data := 11, vc := 1\<rparr>\<rparr>)"
    by (simp add: spec_src_forward_def spec_first_ready_vc_def GetCurrentCycle_def
          example_src_def example_src_sim_def put_connection_def example_phit_def upt_rec)
  with h1 h2 h3 show ?thesis by simp
qed

subsection \<open>Loops and frames\<close>

lemma for_each_Cons_Inr:
  "(for_each (w # ws) body s = Inr s') = (\<exists>t. body w s = Inr t \<and> for_each ws body t = Inr s')"
  by (simp add: and_then_eq_Inr)

lemma for_each_invariant_subset:
  assumes step: "\<And>w t t'. w \<in> S \<Longrightarrow> I t \<Longrightarrow> body w t = Inr t' \<Longrightarrow> I t'"
  shows "for_each ws body s = Inr s' \<Longrightarrow> set ws \<subseteq> S \<Longrightarrow> I s \<Longrightarrow> I s'"
proof (induction ws arbitrary: s)
  case Nil
  then show ?case by simp
next
  case (Cons w ws)
  from Cons.prems(1) obtain t where t: "body w s = Inr t" "for_each ws body t = Inr s'"
    unfolding for_each_Cons_Inr by blast
  from step [of w s t] Cons.prems t have "I t" by simp
  with Cons.IH [OF t(2)] Cons.prems show ?case by simp
qed

lemma for_each_invariant:
  assumes "for_each vs body s = Inr s'" and "I s"
    and "\<And>w t t'. w \<in> set vs \<Longrightarrow> I t \<Longrightarrow> body w t = Inr t' \<Longrightarrow> I t'"
  shows "I s'"
  using for_each_invariant_subset [where S = "set vs" and I = I, OF assms(3) assms(1) _ assms(2)]
  by simp

lemma for_each_establishes_subset:
  assumes keep_inv: "\<And>w t t'. w \<in> S \<Longrightarrow> I t \<Longrightarrow> body w t = Inr t' \<Longrightarrow> I t'"
    and establish: "\<And>t t'. I t \<Longrightarrow> body v t = Inr t' \<Longrightarrow> Q t'"
    and keep: "\<And>w t t'. w \<in> S \<Longrightarrow> w \<noteq> v \<Longrightarrow> I t \<Longrightarrow> Q t \<Longrightarrow> body w t = Inr t' \<Longrightarrow> Q t'"
  shows "for_each ws body s = Inr s' \<Longrightarrow> set ws \<subseteq> S \<Longrightarrow> I s \<Longrightarrow> v \<in> set ws \<or> Q s \<Longrightarrow> Q s'"
proof (induction ws arbitrary: s)
  case Nil
  then show ?case by simp
next
  case (Cons w ws)
  from Cons.prems(1) obtain t where t: "body w s = Inr t" "for_each ws body t = Inr s'"
    unfolding for_each_Cons_Inr by blast
  from keep_inv [of w s t] Cons.prems t have It: "I t" by simp
  have Qt: "v \<in> set ws \<or> Q t"
  proof (cases "w = v")
    case True
    with establish [of s t] Cons.prems t show ?thesis by simp
  next
    case False
    with keep [of w s t] Cons.prems t show ?thesis by auto
  qed
  from Cons.IH [OF t(2) _ It Qt] Cons.prems(2) show ?case by simp
qed

lemma for_each_establishes:
  assumes run: "for_each vs body s = Inr s'" and v: "v \<in> set vs" and inv: "I s"
    and keep_inv: "\<And>w t t'. w \<in> set vs \<Longrightarrow> I t \<Longrightarrow> body w t = Inr t' \<Longrightarrow> I t'"
    and establish: "\<And>t t'. I t \<Longrightarrow> body v t = Inr t' \<Longrightarrow> Q t'"
    and keep: "\<And>w t t'. w \<in> set vs \<Longrightarrow> w \<noteq> v \<Longrightarrow> I t \<Longrightarrow> Q t \<Longrightarrow> body w t = Inr t' \<Longrightarrow> Q t'"
  shows "Q s'"
  using for_each_establishes_subset [where S = "set vs" and I = I and Q = Q and v = v,
      OF keep_inv establish keep run _ inv] v
  by simp

lemma for_each_reaches:
  "for_each vs body s = Inr s' \<Longrightarrow> v \<in> set vs \<Longrightarrow> \<exists>t t'. body v t = Inr t'"
proof (induction vs arbitrary: s)
  case Nil
  then show ?case by simp
next
  case (Cons w ws)
  from Cons.prems(1) obtain t where t: "body w s = Inr t" "for_each ws body t = Inr s'"
    unfolding for_each_Cons_Inr by blast
  show ?case
  proof (cases "v = w")
    case True
    with t show ?thesis by blast
  next
    case False
    with Cons.prems(2) Cons.IH [OF t(2)] show ?thesis by simp
  qed
qed

lemma frame_refl [simp]: "frame s s"
  unfolding frame_def by (rule exI [of _ "connections s"]) simp

lemma frame_trans: "frame s t \<Longrightarrow> frame t u \<Longrightarrow> frame s u"
  unfolding frame_def by auto

lemma frame_fields:
  "frame s t \<Longrightarrow>
   cycle_sim t = cycle_sim s \<and> GetCurrentCycle t = GetCurrentCycle s \<and>
   connection_indices_store t = connection_indices_store s \<and> routing t = routing s \<and>
   GetConnectionIndicesStore t = GetConnectionIndicesStore s \<and>
   network_interface_sources t = network_interface_sources s \<and> links t = links s \<and>
   routers t = routers s \<and> network_interface_sinks t = network_interface_sinks s \<and>
   length (connections t) = length (connections s)"
  unfolding frame_def GetCurrentCycle_def
  by (auto simp: GetConnectionIndicesStore_def fun_eq_iff)

lemma frame_reverse_length:
  "frame s t \<Longrightarrow> j < length (connections s) \<Longrightarrow>
   length (reverse_channels (connections t ! j)) = length (reverse_channels (connections s ! j))"
  unfolding frame_def by auto

lemma frame_put_connection:
  "j < length (connections s) \<Longrightarrow>
   length (reverse_channels c) = length (reverse_channels (connections s ! j)) \<Longrightarrow>
   frame s (put_connection j c s)"
  unfolding frame_def put_connection_def
  by (rule exI [of _ "(connections s)[j := c]"]) (auto simp: nth_list_update)

lemma frame_put_connection_trans:
  "frame s t \<Longrightarrow> j < length (connections t) \<Longrightarrow>
   length (reverse_channels c) = length (reverse_channels (connections t ! j)) \<Longrightarrow>
   frame s (put_connection j c t)"
  by (erule frame_trans) (rule frame_put_connection)

lemma connections_put_connection [simp]:
  "connections (put_connection j c s) = (connections s)[j := c]"
  by (simp add: put_connection_def)

lemma GetCurrentCycle_put_connection [simp]:
  "GetCurrentCycle (put_connection j c s) = GetCurrentCycle s"
  by (simp add: put_connection_def GetCurrentCycle_def)

subsection \<open>Credits at reset\<close>

lemma router_send_credit_Inr:
  assumes "router_send_credit nc ins i v t = Inr t'"
  shows "i < length ins \<and> ins ! i < length (connections t) \<and>
         (\<exists>d. (GetCurrentCycle t = 0 \<longrightarrow> i < length (input_buffers_router nc) \<and>
                  v < length (input_buffers_router nc ! i) \<and>
                  d = max_queue_size (input_buffers_router nc ! i ! v)) \<and>
              (GetCurrentCycle t \<noteq> 0 \<longrightarrow> i < length (input_credit_to_send nc) \<and>
                  v < length (input_credit_to_send nc ! i) \<and>
                  d = input_credit_to_send nc ! i ! v) \<and>
              t' = put_connection (ins ! i)
                     ((connections t ! (ins ! i))\<lparr>reverse_channels :=
                        (reverse_channels (connections t ! (ins ! i)))
                          [v := \<lparr>cycle = GetCurrentCycle t,
                                 phit = \<lparr>valid = True, data = d\<rparr>\<rparr>]\<rparr>) t)"
  using assms
  by (auto simp: router_send_credit_def and_then_eq_Inr split: if_splits)

lemma router_send_credit_frame:
  "router_send_credit nc ins i v t = Inr t' \<Longrightarrow> frame s t \<Longrightarrow> frame s t'"
  by (drule router_send_credit_Inr) (auto intro!: frame_put_connection_trans)

lemma router_send_credits_frame:
  assumes "router_send_credits nc ins i t = Inr t'" and "frame s t"
  shows "frame s t'"
proof -
  from assms(1) have
    loop: "for_each [0..<length (reverse_channels (connections t ! (ins ! i)))]
             (router_send_credit nc ins i) t = Inr t'"
    by (auto simp: router_send_credits_def and_then_eq_Inr)
  show ?thesis
    by (rule for_each_invariant [where I = "frame s", OF loop assms(2)])
       (rule router_send_credit_frame)
qed

lemma router_send_credit_other_connection:
  "router_send_credit nc ins j w t = Inr t' \<Longrightarrow> ins ! j \<noteq> c \<Longrightarrow>
   connections t' ! c = connections t ! c"
  by (drule router_send_credit_Inr) auto

lemma router_send_credit_other_vc:
  "router_send_credit nc ins j w t = Inr t' \<Longrightarrow> w \<noteq> v \<Longrightarrow>
   reverse_channels (connections t' ! c) ! v = reverse_channels (connections t ! c) ! v"
  by (drule router_send_credit_Inr) (auto simp: nth_list_update)

lemma router_send_credit_writes:
  "router_send_credit nc ins i v t = Inr t' \<Longrightarrow> GetCurrentCycle t = 0 \<Longrightarrow>
   v < length (reverse_channels (connections t ! (ins ! i))) \<Longrightarrow>
   reverse_channels (connections t' ! (ins ! i)) ! v =
     \<lparr>cycle = 0, phit = \<lparr>valid = True, data = max_queue_size (input_buffers_router nc ! i ! v)\<rparr>\<rparr>"
  by (drule router_send_credit_Inr) auto

lemma router_send_credits_other_connection:
  assumes "router_send_credits nc ins j t = Inr t'" and "ins ! j \<noteq> c"
  shows "connections t' ! c = connections t ! c"
proof -
  from assms(1) have
    loop: "for_each [0..<length (reverse_channels (connections t ! (ins ! j)))]
             (router_send_credit nc ins j) t = Inr t'"
    by (auto simp: router_send_credits_def and_then_eq_Inr)
  show ?thesis
    by (rule for_each_invariant
          [where I = "\<lambda>u. connections u ! c = connections t ! c", OF loop])
       (use assms(2) in \<open>auto dest: router_send_credit_other_connection\<close>)
qed

lemma router_send_credits_writes:
  assumes run: "router_send_credits nc ins i t = Inr t'" and fr: "frame s t"
    and cyc: "GetCurrentCycle s = 0"
    and v: "v < length (reverse_channels (connections s ! (ins ! i)))"
  shows "reverse_channels (connections t' ! (ins ! i)) ! v =
     \<lparr>cycle = 0, phit = \<lparr>valid = True, data = max_queue_size (input_buffers_router nc ! i ! v)\<rparr>\<rparr>"
proof -
  from run have
    loop: "for_each [0..<length (reverse_channels (connections t ! (ins ! i)))]
             (router_send_credit nc ins i) t = Inr t'"
    and range: "ins ! i < length (connections t)"
    by (auto simp: router_send_credits_def and_then_eq_Inr)
  from fr range have range_s: "ins ! i < length (connections s)"
    by (simp add: frame_fields)
  from frame_reverse_length [OF fr range_s] v
  have mem: "v \<in> set [0..<length (reverse_channels (connections t ! (ins ! i)))]"
    by simp
  show ?thesis
  proof (rule for_each_establishes [where I = "frame s", OF loop mem fr])
    fix w u u' assume "frame s u" "router_send_credit nc ins i w u = Inr u'"
    then show "frame s u'" by (simp add: router_send_credit_frame)
  next
    fix u u' assume u: "frame s u" "router_send_credit nc ins i v u = Inr u'"
    from u(1) cyc have "GetCurrentCycle u = 0" by (simp add: frame_fields)
    moreover from frame_reverse_length [OF u(1) range_s] v
    have "v < length (reverse_channels (connections u ! (ins ! i)))" by simp
    ultimately show "reverse_channels (connections u' ! (ins ! i)) ! v =
       \<lparr>cycle = 0, phit = \<lparr>valid = True, data = max_queue_size (input_buffers_router nc ! i ! v)\<rparr>\<rparr>"
      using u(2) by (rule router_send_credit_writes [rotated])
  next
    fix w u u'
    assume "w \<noteq> v" "router_send_credit nc ins i w u = Inr u'"
      "reverse_channels (connections u ! (ins ! i)) ! v =
       \<lparr>cycle = 0, phit = \<lparr>valid = True, data = max_queue_size (input_buffers_router nc ! i ! v)\<rparr>\<rparr>"
    then show "reverse_channels (connections u' ! (ins ! i)) ! v =
       \<lparr>cycle = 0, phit = \<lparr>valid = True, data = max_queue_size (input_buffers_router nc ! i ! v)\<rparr>\<rparr>"
      using router_send_credit_other_vc [of nc ins i w u u' v "ins ! i"] by simp
  qed
qed

lemma router_send_credits_index:
  "router_send_credits nc ins j t = Inr t' \<Longrightarrow> j < length ins"
  by (auto simp: router_send_credits_def and_then_eq_Inr)

lemma router_reverse_Inr:
  assumes "SimInputBufferedVCRouter_TryReversePropagation nc s = Inr (b, nc', s')"
    and "forward_propagated_cycle nc = GetCurrentCycle s"
  shows "for_each [0..<input_connection_count nc]
           (router_send_credits nc (GetConnectionIndicesStore s (input_connection_index_start nc)
              (input_connection_count nc))) s = Inr s'"
  using assms
  by (auto simp: SimInputBufferedVCRouter_TryReversePropagation_def Let_def and_then_eq_Inr)

lemma router_reverse_full_credit:
  assumes run: "SimInputBufferedVCRouter_TryReversePropagation nc s = Inr (b, nc', s')"
    and cyc: "GetCurrentCycle s = 0" and fwd: "forward_propagated_cycle nc = 0"
    and ins: "ins = GetConnectionIndicesStore s (input_connection_index_start nc)
                (input_connection_count nc)"
    and dist: "distinct ins"
    and i: "i < input_connection_count nc"
    and v: "v < length (reverse_channels (connections s ! (ins ! i)))"
  shows "reverse_channels (connections s' ! (ins ! i)) ! v =
     \<lparr>cycle = 0, phit = \<lparr>valid = True, data = max_queue_size (input_buffers_router nc ! i ! v)\<rparr>\<rparr>"
proof -
  from router_reverse_Inr [OF run] cyc fwd ins
  have loop: "for_each [0..<input_connection_count nc] (router_send_credits nc ins) s = Inr s'"
    by simp
  from i have mem: "i \<in> set [0..<input_connection_count nc]" by simp
  from for_each_reaches [OF loop mem] have i_ins: "i < length ins"
    by (auto dest: router_send_credits_index)
  show ?thesis
  proof (rule for_each_establishes [where I = "frame s", OF loop mem frame_refl])
    fix w u u' assume "frame s u" "router_send_credits nc ins w u = Inr u'"
    then show "frame s u'" by (simp add: router_send_credits_frame)
  next
    fix u u' assume "frame s u" "router_send_credits nc ins i u = Inr u'"
    then show "reverse_channels (connections u' ! (ins ! i)) ! v =
       \<lparr>cycle = 0, phit = \<lparr>valid = True, data = max_queue_size (input_buffers_router nc ! i ! v)\<rparr>\<rparr>"
      using cyc v by (simp add: router_send_credits_writes)
  next
    fix w u u'
    assume w: "w \<noteq> i" "router_send_credits nc ins w u = Inr u'"
      and Q: "reverse_channels (connections u ! (ins ! i)) ! v =
       \<lparr>cycle = 0, phit = \<lparr>valid = True, data = max_queue_size (input_buffers_router nc ! i ! v)\<rparr>\<rparr>"
    from w(2) have "w < length ins" by (rule router_send_credits_index)
    with dist i_ins w(1) have "ins ! w \<noteq> ins ! i"
      by (simp add: nth_eq_iff_index_eq)
    from router_send_credits_other_connection [OF w(2) this] Q
    show "reverse_channels (connections u' ! (ins ! i)) ! v =
       \<lparr>cycle = 0, phit = \<lparr>valid = True, data = max_queue_size (input_buffers_router nc ! i ! v)\<rparr>\<rparr>"
      by simp
  qed
qed

lemma sink_full_credit_loop:
  "for_each vs (sink_full_credit nc) c = Inr c' \<Longrightarrow>
   length (reverse_channels c') = length (reverse_channels c) \<and>
   forward_channels c' = forward_channels c \<and> connection_id c' = connection_id c \<and>
   (\<forall>v < length (reverse_channels c).
      reverse_channels c' ! v =
        (if v \<in> set vs
         then \<lparr>cycle = 0, phit = \<lparr>valid = True, data = max_queue_size (input_buffers_sink nc ! v)\<rparr>\<rparr>
         else reverse_channels c ! v))"
proof (induction vs arbitrary: c)
  case Nil
  then show ?case by simp
next
  case (Cons w ws)
  from Cons.prems obtain d where d: "sink_full_credit nc w c = Inr d"
      "for_each ws (sink_full_credit nc) d = Inr c'"
    by (auto simp: and_then_eq_Inr)
  from d(1) have d_eq: "d = c\<lparr>reverse_channels := (reverse_channels c)
      [w := \<lparr>cycle = 0, phit = \<lparr>valid = True, data = max_queue_size (input_buffers_sink nc ! w)\<rparr>\<rparr>]\<rparr>"
    by (auto simp: sink_full_credit_def and_then_eq_Inr)
  from Cons.IH [OF d(2)] show ?case
    by (auto simp: d_eq nth_list_update)
qed

lemma sink_forward_full_credit:
  assumes run: "SimNetworkInterfaceSink_TryForwardPropagation nc s = Inr (True, nc', s')"
    and cyc: "GetCurrentCycle s = 0"
    and v: "v < length (reverse_channels (connections s ! src_connection_index_sink nc))"
  shows "reverse_channels (connections s' ! src_connection_index_sink nc) ! v =
     \<lparr>cycle = 0, phit = \<lparr>valid = True, data = max_queue_size (input_buffers_sink nc ! v)\<rparr>\<rparr>"
  using assms
  by (auto simp: SimNetworkInterfaceSink_TryForwardPropagation_def Let_def and_then_eq_Inr
        split: if_splits dest!: sink_full_credit_loop)

lemma src_update_no_credit:
  "\<forall>v \<in> set vs. v < length (credit_update_src nc) \<and> credit (credit_update_src nc ! v) \<le> 0 \<Longrightarrow>
   for_each vs src_update_credit nc = Inr nc"
  by (induction vs) (auto simp: src_update_credit_def vec_index_def)

lemma find_None_iff_all: "(find P xs = None) = (\<forall>x \<in> set xs. \<not> P x)"
  by (induction xs) auto

lemma src_forward_without_credit:
  assumes sizes: "length (credit_update_src nc) = length (credit_src nc)"
                 "length (data_to_send nc) = length (credit_src nc)"
    and zero: "\<forall>v < length (credit_src nc). credit_src nc ! v = 0 \<and>
                 credit (credit_update_src nc ! v) \<le> 0"
    and index: "sink_connection_index_src nc < length (connections s)"
  shows "SimNetworkInterfaceSrc_TryForwardPropagation nc s =
     Inr (True, nc\<lparr>forward_propagated_cycle := GetCurrentCycle s\<rparr>,
          put_connection (sink_connection_index_src nc)
            ((connections s ! sink_connection_index_src nc)\<lparr>forward_channels :=
               \<lparr>cycle = GetCurrentCycle s,
                phit = \<lparr>valid = False, data = 0, vc = 0, destination_index = 0\<rparr>\<rparr>\<rparr>) s)"
proof -
  have upd: "for_each [0..<length (credit_src nc)] src_update_credit nc = Inr nc"
    by (rule src_update_no_credit) (use sizes zero in auto)
  have "src_send_data [0..<length (data_to_send nc)] (GetCurrentCycle s) nc s =
      Inr (False, nc, s)"
    using sizes zero index
    by (subst src_send_data_find [where i = "sink_connection_index_src nc"])
       (auto simp: find_None_iff_all split: option.splits)
  with upd index show ?thesis
    by (simp add: SimNetworkInterfaceSrc_TryForwardPropagation_def Let_def
          GetSimConnectionByIndex_def vec_index_def DataPhit_overwritten)
qed

lemma src_forward_after_initialize:
  assumes fresh: "credit_src nc0 = []" "credit_update_src nc0 = []"
    and nc: "nc = (SimNetworkInterfaceSrc_InitializeImpl n c s0 nc0)\<lparr>data_to_send := q\<rparr>"
    and q: "length q = n"
    and index: "c < length (connections s)"
  shows "SimNetworkInterfaceSrc_TryForwardPropagation nc s =
     Inr (True, nc\<lparr>forward_propagated_cycle := GetCurrentCycle s\<rparr>,
          put_connection c
            ((connections s ! c)\<lparr>forward_channels :=
               \<lparr>cycle = GetCurrentCycle s,
                phit = \<lparr>valid = False, data = 0, vc = 0, destination_index = 0\<rparr>\<rparr>\<rparr>) s)"
proof -
  have c: "sink_connection_index_src nc = c"
    by (simp add: nc SimNetworkInterfaceSrc_InitializeImpl_def)
  show ?thesis
    using src_forward_without_credit [of nc s] fresh q index
    unfolding c
    by (simp add: nc SimNetworkInterfaceSrc_InitializeImpl_def resize_def)
qed

text \<open>
  Claim C7. In cycle 0 a router whose forward phase is done publishes, on every VC of every
  input connection, a valid credit phit stamped 0 whose data is the depth of that input
  buffer (the input connections of a router are distinct); a sink whose forward
  propagation succeeds publishes the same on every VC of its connection, with the depth
  of its buffer. A source as the initializer leaves it, whatever has been queued for
  sending since, has credit 0 on every VC: its forward propagation succeeds, keeps the
  credits at 0 and puts a phit that is not valid on its connection.
\<close>

theorem cycle_zero_credit_grant:
  "(\<forall>nc s b nc' s' ins i v.
      GetCurrentCycle s = 0 \<and> forward_propagated_cycle nc = 0 \<and>
      SimInputBufferedVCRouter_TryReversePropagation nc s = Inr (b, nc', s') \<and>
      ins = GetConnectionIndicesStore s (input_connection_index_start nc)
              (input_connection_count nc) \<and>
      distinct ins \<and> i < input_connection_count nc \<and>
      v < length (reverse_channels (connections s ! (ins ! i))) \<longrightarrow>
      reverse_channels (connections s' ! (ins ! i)) ! v =
        \<lparr>cycle = 0,
         phit = \<lparr>valid = True, data = max_queue_size (input_buffers_router nc ! i ! v)\<rparr>\<rparr>) \<and>
   (\<forall>nc s nc' s' v.
      GetCurrentCycle s = 0 \<and>
      SimNetworkInterfaceSink_TryForwardPropagation nc s = Inr (True, nc', s') \<and>
      v < length (reverse_channels (connections s ! src_connection_index_sink nc)) \<longrightarrow>
      reverse_channels (connections s' ! src_connection_index_sink nc) ! v =
        \<lparr>cycle = 0, phit = \<lparr>valid = True, data = max_queue_size (input_buffers_sink nc ! v)\<rparr>\<rparr>) \<and>
   (\<forall>nc0 n c s0 q s.
      credit_src nc0 = [] \<and> credit_update_src nc0 = [] \<and> length q = n \<and>
      c < length (connections s) \<longrightarrow>
      (\<exists>nc' s'.
         SimNetworkInterfaceSrc_TryForwardPropagation
           ((SimNetworkInterfaceSrc_InitializeImpl n c s0 nc0)\<lparr>data_to_send := q\<rparr>) s =
           Inr (True, nc', s') \<and>
         credit_src nc' = replicate n 0 \<and>
         \<not> valid (phit (forward_channels (connections s' ! c)))))"
proof (intro conjI allI impI)
  fix nc s b nc' s' ins i v
  assume "GetCurrentCycle s = 0 \<and> forward_propagated_cycle nc = 0 \<and>
      SimInputBufferedVCRouter_TryReversePropagation nc s = Inr (b, nc', s') \<and>
      ins = GetConnectionIndicesStore s (input_connection_index_start nc)
              (input_connection_count nc) \<and>
      distinct ins \<and> i < input_connection_count nc \<and>
      v < length (reverse_channels (connections s ! (ins ! i)))"
  then show "reverse_channels (connections s' ! (ins ! i)) ! v =
        \<lparr>cycle = 0,
         phit = \<lparr>valid = True, data = max_queue_size (input_buffers_router nc ! i ! v)\<rparr>\<rparr>"
    using router_reverse_full_credit [of nc s b nc' s' ins i v] by blast
next
  fix nc s nc' s' v
  assume "GetCurrentCycle s = 0 \<and>
      SimNetworkInterfaceSink_TryForwardPropagation nc s = Inr (True, nc', s') \<and>
      v < length (reverse_channels (connections s ! src_connection_index_sink nc))"
  then show "reverse_channels (connections s' ! src_connection_index_sink nc) ! v =
        \<lparr>cycle = 0, phit = \<lparr>valid = True, data = max_queue_size (input_buffers_sink nc ! v)\<rparr>\<rparr>"
    using sink_forward_full_credit [of nc s nc' s' v] by blast
next
  fix nc0 :: SimNetworkInterfaceSrc and n c and s0 :: NocSimulator
    and q :: "TimedDataPhit list list" and s :: NocSimulator
  assume a: "credit_src nc0 = [] \<and> credit_update_src nc0 = [] \<and> length q = n \<and>
      c < length (connections s)"
  let ?nc = "(SimNetworkInterfaceSrc_InitializeImpl n c s0 nc0)\<lparr>data_to_send := q\<rparr>"
  from a have "SimNetworkInterfaceSrc_TryForwardPropagation ?nc s =
     Inr (True, ?nc\<lparr>forward_propagated_cycle := GetCurrentCycle s\<rparr>,
          put_connection c
            ((connections s ! c)\<lparr>forward_channels :=
               \<lparr>cycle = GetCurrentCycle s,
                phit = \<lparr>valid = False, data = 0, vc = 0, destination_index = 0\<rparr>\<rparr>\<rparr>) s)"
    using src_forward_after_initialize
      [where ?nc0.0 = nc0 and nc = ?nc and n = n and c = c and ?s0.0 = s0 and q = q and s = s]
    by simp
  with a show "\<exists>nc' s'.
         SimNetworkInterfaceSrc_TryForwardPropagation ?nc s = Inr (True, nc', s') \<and>
         credit_src nc' = replicate n 0 \<and>
         \<not> valid (phit (forward_channels (connections s' ! c)))"
    by (simp add: SimNetworkInterfaceSrc_InitializeImpl_def resize_def)
qed

lemmas example_router_defs =
  example_router_def example_router_sim_def example_connection_def reset_connections_def
  example_routes_def example_bubble_def example_phit_def example_sink_def

lemma example_router_reset_reverse:
  "SimInputBufferedVCRouter_TryReversePropagation example_router
     (example_router_sim 0 example_routes reset_connections) =
   Inr (False, example_router,
        example_router_sim 0 example_routes
          [example_connection 0 \<lparr>cycle = 0, phit = example_bubble\<rparr>
             \<lparr>cycle = 0, phit = \<lparr>valid = True, data = 4\<rparr>\<rparr>,
           example_connection 1 \<lparr>cycle = 0, phit = example_bubble\<rparr>
             \<lparr>cycle = 0, phit = \<lparr>valid = True, data = 4\<rparr>\<rparr>,
           example_connection 2 \<lparr>cycle = 0, phit = example_bubble\<rparr>
             \<lparr>cycle = - 1, phit = \<lparr>valid = False, data = 0\<rparr>\<rparr>])"
  by (simp add: SimInputBufferedVCRouter_TryReversePropagation_def example_router_defs
        GetCurrentCycle_def GetConnectionIndicesStore_def router_send_credits_def
        router_send_credit_def router_receive_credits_def router_receive_credit_def
        GetSimConnectionByIndex_def vec_index_def vec_at_def put_connection_def upt_rec Let_def)

lemma example_sink_reset_forward:
  "SimNetworkInterfaceSink_TryForwardPropagation example_sink
     (example_router_sim 0 example_routes reset_connections) =
   Inr (True, example_sink,
        example_router_sim 0 example_routes
          [example_connection 0 \<lparr>cycle = 0, phit = example_bubble\<rparr>
             \<lparr>cycle = - 1, phit = \<lparr>valid = False, data = 0\<rparr>\<rparr>,
           example_connection 1 \<lparr>cycle = 0, phit = example_bubble\<rparr>
             \<lparr>cycle = - 1, phit = \<lparr>valid = False, data = 0\<rparr>\<rparr>,
           example_connection 2 \<lparr>cycle = 0, phit = example_bubble\<rparr>
             \<lparr>cycle = 0, phit = \<lparr>valid = True, data = 3\<rparr>\<rparr>])"
  by (simp add: SimNetworkInterfaceSink_TryForwardPropagation_def example_router_defs
        GetCurrentCycle_def sink_full_credit_def
        GetSimConnectionByIndex_def vec_index_def vec_at_def put_connection_def upt_rec Let_def)

theorem cycle_zero_credit_grant_witness:
  "GetCurrentCycle (example_router_sim 0 example_routes reset_connections) = 0 \<and>
   forward_propagated_cycle example_router = 0 \<and>
   distinct (GetConnectionIndicesStore (example_router_sim 0 example_routes reset_connections)
     (input_connection_index_start example_router) (input_connection_count example_router)) \<and>
   (\<exists>b nc' s'.
      SimInputBufferedVCRouter_TryReversePropagation example_router
        (example_router_sim 0 example_routes reset_connections) = Inr (b, nc', s') \<and>
      reverse_channels (connections s' ! 1) ! 0 =
        \<lparr>cycle = 0, phit = \<lparr>valid = True, data = 4\<rparr>\<rparr>) \<and>
   (\<exists>nc' s'.
      SimNetworkInterfaceSink_TryForwardPropagation example_sink
        (example_router_sim 0 example_routes reset_connections) = Inr (True, nc', s') \<and>
      reverse_channels (connections s' ! 2) ! 0 =
        \<lparr>cycle = 0, phit = \<lparr>valid = True, data = 3\<rparr>\<rparr>) \<and>
   (\<exists>nc' s'.
      SimNetworkInterfaceSrc_TryForwardPropagation
        ((SimNetworkInterfaceSrc_InitializeImpl 2 0
            (example_router_sim 0 example_routes reset_connections)
            (example_src\<lparr>data_to_send := [], credit_src := [], credit_update_src := []\<rparr>))
         \<lparr>data_to_send := data_to_send example_src\<rparr>)
        (example_router_sim 0 example_routes reset_connections) = Inr (True, nc', s') \<and>
      credit_src nc' = [0, 0] \<and>
      \<not> valid (phit (forward_channels (connections s' ! 0))))"
proof -
  let ?s = "example_router_sim 0 example_routes reset_connections"
  let ?ins = "GetConnectionIndicesStore ?s (input_connection_index_start example_router)
                (input_connection_count example_router)"
  have ins: "?ins = [0, 1]"
    by (simp add: GetConnectionIndicesStore_def example_router_defs)
  have h: "GetCurrentCycle ?s = 0" "forward_propagated_cycle example_router = 0"
      "distinct ?ins" "(1::nat) < input_connection_count example_router"
      "0 < length (reverse_channels (connections ?s ! (?ins ! 1)))"
      "0 < length (reverse_channels (connections ?s ! src_connection_index_sink example_sink))"
    unfolding ins by (simp_all add: GetCurrentCycle_def example_router_defs)
  note router = cycle_zero_credit_grant [THEN conjunct1, rule_format, OF conjI, OF h(1) conjI,
      OF h(2) conjI, OF example_router_reset_reverse conjI, OF refl conjI, OF h(3) conjI,
      OF h(4) h(5)]
  note sink = cycle_zero_credit_grant [THEN conjunct2, THEN conjunct1, rule_format, OF conjI,
      OF h(1) conjI, OF example_sink_reset_forward h(6)]
  have fresh: "credit_src (example_src\<lparr>data_to_send := [], credit_src := [], credit_update_src := []\<rparr>) = [] \<and>
      credit_update_src (example_src\<lparr>data_to_send := [], credit_src := [], credit_update_src := []\<rparr>) = [] \<and>
      length (data_to_send example_src) = 2 \<and> 0 < length (connections ?s)"
    by (simp add: example_src_def example_router_defs)
  note src = cycle_zero_credit_grant [THEN conjunct2, THEN conjunct2, rule_format, OF fresh,
      of ?s]
  have router': "\<exists>b nc' s'.
      SimInputBufferedVCRouter_TryReversePropagation example_router ?s = Inr (b, nc', s') \<and>
      reverse_channels (connections s' ! 1) ! 0 = \<lparr>cycle = 0, phit = \<lparr>valid = True, data = 4\<rparr>\<rparr>"
    by (intro exI conjI, rule example_router_reset_reverse)
       (use router in \<open>simp add: GetConnectionIndicesStore_def example_router_defs\<close>)
  have sink': "\<exists>nc' s'.
      SimNetworkInterfaceSink_TryForwardPropagation example_sink ?s = Inr (True, nc', s') \<and>
      reverse_channels (connections s' ! 2) ! 0 = \<lparr>cycle = 0, phit = \<lparr>valid = True, data = 3\<rparr>\<rparr>"
    by (intro exI conjI, rule example_sink_reset_forward)
       (use sink in \<open>simp add: example_router_defs\<close>)
  have two: "replicate 2 (0::int) = [0, 0]"
    by (simp add: numeral_2_eq_2)
  from h(1-3) router' sink' src [unfolded two] show ?thesis
    by (intro conjI)
qed

subsection \<open>Every method keeps the frame\<close>

lemma router_arbitrate_cases:
  assumes "router_arbitrate outs v i (nc, s) = Inr (nc', s')"
  shows "(nc' = nc \<and> s' = s) \<or>
    (\<exists>dst oc.
       i < length (input_buffers_router nc) \<and> v < length (input_buffers_router nc ! i) \<and>
       queue (input_buffers_router nc ! i ! v) \<noteq> [] \<and>
       GetDestinationPortIndexAndVcIndex (routing s) (id_nc nc) (i, int v)
         (destination_index (hd (queue (input_buffers_router nc ! i ! v)))) = Some dst \<and>
       0 \<le> fst dst \<and> nat (fst dst) < length (credit_router nc) \<and>
       0 \<le> snd dst \<and> nat (snd dst) < length (credit_router nc ! nat (fst dst)) \<and>
       0 < credit_router nc ! nat (fst dst) ! nat (snd dst) \<and>
       nat (fst dst) < length outs \<and> oc = outs ! nat (fst dst) \<and>
       oc < length (connections s) \<and>
       cycle (forward_channels (connections s ! oc)) \<noteq> GetCurrentCycle s \<and>
       i < length (input_credit_to_send nc) \<and> v < length (input_credit_to_send nc ! i) \<and>
       nc' = nc\<lparr>credit_router := (credit_router nc)
                   [nat (fst dst) := (credit_router nc ! nat (fst dst))
                      [nat (snd dst) :=
                         credit_router nc ! nat (fst dst) ! nat (snd dst) - 1]],
                 input_credit_to_send := (input_credit_to_send nc)
                   [i := (input_credit_to_send nc ! i)
                      [v := input_credit_to_send nc ! i ! v + 1]],
                 input_buffers_router := (input_buffers_router nc)
                   [i := (input_buffers_router nc ! i)
                      [v := (input_buffers_router nc ! i ! v)
                         \<lparr>queue := tl (queue (input_buffers_router nc ! i ! v))\<rparr>]]\<rparr> \<and>
       s' = put_connection oc
              ((connections s ! oc)\<lparr>forward_channels :=
                 \<lparr>cycle = GetCurrentCycle s,
                  phit = (hd (queue (input_buffers_router nc ! i ! v)))
                    \<lparr>valid := True, vc := snd dst\<rparr>\<rparr>\<rparr>) s)"
proof -
  let ?row = "input_buffers_router nc ! i"
  from assms have row: "i < length (input_buffers_router nc)"
    by (auto simp: router_arbitrate_def and_then_eq_Inr)
  show ?thesis
  proof (cases "length ?row \<le> v \<or> queue (?row ! v) = []")
    case True
    with assms row show ?thesis
      by (auto simp: router_arbitrate_def vec_index_def split: if_splits)
  next
    case False
    with assms row obtain dst where
      look: "GetDestinationPortIndexAndVcIndex (routing s) (id_nc nc) (i, int v)
         (destination_index (hd (queue (?row ! v)))) = Some dst"
      by (cases "GetDestinationPortIndexAndVcIndex (routing s) (id_nc nc) (i, int v)
         (destination_index (hd (queue (?row ! v))))")
         (auto simp: router_arbitrate_def vec_index_def Let_def)
    from assms row False look have rest:
      "and_then (vec_at_int (credit_router nc) (fst dst)) (\<lambda>credit_row.
         and_then (vec_at_int credit_row (snd dst)) (\<lambda>c.
           if c \<le> 0 then Inr (nc, s)
           else
             and_then (vec_at_int outs (fst dst)) (\<lambda>oc.
             and_then (GetSimConnectionByIndex s oc) (\<lambda>output_state.
               if cycle (forward_channels output_state) = GetCurrentCycle s
               then Inr (nc, s)
               else
                 and_then (vec_index (input_credit_to_send nc) i) (\<lambda>send_row.
                 and_then (vec_index send_row v) (\<lambda>to_send.
                   Inr (nc\<lparr>credit_router := (credit_router nc)
                             [nat (fst dst) := credit_row[nat (snd dst) := c - 1]],
                           input_credit_to_send := (input_credit_to_send nc)
                             [i := send_row[v := to_send + 1]],
                           input_buffers_router := (input_buffers_router nc)
                             [i := ?row[v := (?row ! v)\<lparr>queue := tl (queue (?row ! v))\<rparr>]]\<rparr>,
                        put_connection oc
                          (output_state\<lparr>forward_channels :=
                             \<lparr>cycle = GetCurrentCycle s,
                              phit = (hd (queue (?row ! v)))\<lparr>valid := True, vc := snd dst\<rparr>\<rparr>\<rparr>)
                          s))))))) = Inr (nc', s')"
      by (simp add: router_arbitrate_def vec_index_def Let_def)
    then obtain credit_row c where
      cr: "vec_at_int (credit_router nc) (fst dst) = Inr credit_row"
          "vec_at_int credit_row (snd dst) = Inr c"
      and rest2: "(if c \<le> 0 then Inr (nc, s)
           else
             and_then (vec_at_int outs (fst dst)) (\<lambda>oc.
             and_then (GetSimConnectionByIndex s oc) (\<lambda>output_state.
               if cycle (forward_channels output_state) = GetCurrentCycle s
               then Inr (nc, s)
               else
                 and_then (vec_index (input_credit_to_send nc) i) (\<lambda>send_row.
                 and_then (vec_index send_row v) (\<lambda>to_send.
                   Inr (nc\<lparr>credit_router := (credit_router nc)
                             [nat (fst dst) := credit_row[nat (snd dst) := c - 1]],
                           input_credit_to_send := (input_credit_to_send nc)
                             [i := send_row[v := to_send + 1]],
                           input_buffers_router := (input_buffers_router nc)
                             [i := ?row[v := (?row ! v)\<lparr>queue := tl (queue (?row ! v))\<rparr>]]\<rparr>,
                        put_connection oc
                          (output_state\<lparr>forward_channels :=
                             \<lparr>cycle = GetCurrentCycle s,
                              phit = (hd (queue (?row ! v)))\<lparr>valid := True, vc := snd dst\<rparr>\<rparr>\<rparr>)
                          s)))))) = Inr (nc', s')"
      unfolding and_then_eq_Inr by blast
    from cr have cr': "0 \<le> fst dst" "nat (fst dst) < length (credit_router nc)"
        "credit_row = credit_router nc ! nat (fst dst)"
        "0 \<le> snd dst" "nat (snd dst) < length credit_row"
        "c = credit_row ! nat (snd dst)"
      by (auto simp: vec_at_int_def split: if_splits)
    show ?thesis
    proof (cases "c \<le> 0")
      case True
      with rest2 show ?thesis by simp
    next
      case cpos: False
      with rest2 obtain oc where
        oc: "vec_at_int outs (fst dst) = Inr oc" "oc < length (connections s)"
        and rest3: "(if cycle (forward_channels (connections s ! oc)) = GetCurrentCycle s
               then Inr (nc, s)
               else
                 and_then (vec_index (input_credit_to_send nc) i) (\<lambda>send_row.
                 and_then (vec_index send_row v) (\<lambda>to_send.
                   Inr (nc\<lparr>credit_router := (credit_router nc)
                             [nat (fst dst) := credit_row[nat (snd dst) := c - 1]],
                           input_credit_to_send := (input_credit_to_send nc)
                             [i := send_row[v := to_send + 1]],
                           input_buffers_router := (input_buffers_router nc)
                             [i := ?row[v := (?row ! v)\<lparr>queue := tl (queue (?row ! v))\<rparr>]]\<rparr>,
                        put_connection oc
                          ((connections s ! oc)\<lparr>forward_channels :=
                             \<lparr>cycle = GetCurrentCycle s,
                              phit = (hd (queue (?row ! v)))\<lparr>valid := True, vc := snd dst\<rparr>\<rparr>\<rparr>)
                          s)))) = Inr (nc', s')"
        by (simp add: and_then_eq_Inr) blast
      from oc(1) cr'(1) have oc': "nat (fst dst) < length outs" "oc = outs ! nat (fst dst)"
        by (auto simp: vec_at_int_def)
      show ?thesis
      proof (cases "cycle (forward_channels (connections s ! oc)) = GetCurrentCycle s")
        case True
        with rest3 show ?thesis by simp
      next
        case False
        with rest3 have "i < length (input_credit_to_send nc)"
          "v < length (input_credit_to_send nc ! i)"
          "nc' = nc\<lparr>credit_router := (credit_router nc)
                             [nat (fst dst) := credit_row[nat (snd dst) := c - 1]],
                           input_credit_to_send := (input_credit_to_send nc)
                             [i := (input_credit_to_send nc ! i)
                                [v := input_credit_to_send nc ! i ! v + 1]],
                           input_buffers_router := (input_buffers_router nc)
                             [i := ?row[v := (?row ! v)\<lparr>queue := tl (queue (?row ! v))\<rparr>]]\<rparr>"
          "s' = put_connection oc
                          ((connections s ! oc)\<lparr>forward_channels :=
                             \<lparr>cycle = GetCurrentCycle s,
                              phit = (hd (queue (?row ! v)))\<lparr>valid := True, vc := snd dst\<rparr>\<rparr>\<rparr>)
                          s"
          by (auto simp: and_then_eq_Inr)
        with False cpos cr' oc oc' row look \<open>\<not> (length ?row \<le> v \<or> queue (?row ! v) = [])\<close>
        show ?thesis
          by (intro disjI2 exI [of _ dst] exI [of _ oc]) simp
      qed
    qed
  qed
qed

lemma src_send_data_frame:
  "src_send_data vs cur nc s = Inr (b, nc', s') \<Longrightarrow> frame s s'"
  by (induction vs)
     (auto simp: and_then_eq_Inr intro!: frame_put_connection split: sum.splits if_splits)

lemma src_forward_frame:
  "SimNetworkInterfaceSrc_TryForwardPropagation nc s = Inr (b, nc', s') \<Longrightarrow> frame s s'"
  by (auto simp: SimNetworkInterfaceSrc_TryForwardPropagation_def Let_def and_then_eq_Inr
        split: if_splits dest!: src_send_data_frame
        intro!: frame_put_connection_trans)

lemma src_reverse_frame:
  "SimNetworkInterfaceSrc_TryReversePropagation nc s = Inr (b, nc', s') \<Longrightarrow> s' = s"
  by (auto simp: SimNetworkInterfaceSrc_TryReversePropagation_def Let_def and_then_eq_Inr
        split: if_splits)

lemma TryPropagation_cases:
  "TryPropagation cur n f t st = (b, t', st') \<Longrightarrow>
   (t' = t \<and> st' = st) \<or> (\<not> b \<and> cycle t \<noteq> cur \<and> cycle f = cur \<and> cycle t' = cur)"
  by (auto simp: TryPropagation_def Let_def split: if_splits)

lemma link_forward_frame:
  "SimLink_TryForwardPropagation nc s = Inr (b, nc', s') \<Longrightarrow> frame s s'"
  by (auto simp: SimLink_TryForwardPropagation_def Let_def and_then_eq_Inr
        split: if_splits prod.splits intro!: frame_put_connection)

lemma link_reverse_lane_frame:
  "link_reverse_lane v (nc, t, k) = Inr (nc', t', k') \<Longrightarrow> frame s t \<Longrightarrow> frame s t'"
  by (auto simp: link_reverse_lane_def Let_def and_then_eq_Inr
        split: if_splits prod.splits intro!: frame_put_connection_trans)

lemma link_reverse_frame:
  assumes "SimLink_TryReversePropagation nc s = Inr (b, nc', s')"
  shows "frame s s'"
proof -
  from assms obtain n nc1 k where
    loop: "for_each [0..<n] link_reverse_lane (nc, s, 0) = Inr (nc1, s', k)"
    by (auto simp: SimLink_TryReversePropagation_def Let_def and_then_eq_Inr split: if_splits)
  have "frame s (fst (snd (nc1, s', k)))"
    by (rule for_each_invariant [where I = "\<lambda>st. frame s (fst (snd st))", OF loop])
       (auto dest: link_reverse_lane_frame)
  then show ?thesis by simp
qed

lemma router_arbitrate_frame:
  "router_arbitrate outs v i (nc, t) = Inr (nc', t') \<Longrightarrow> frame s t \<Longrightarrow> frame s t'"
  by (drule router_arbitrate_cases) (auto intro!: frame_put_connection_trans)

lemma router_bubble_frame:
  "router_bubble outs i t = Inr t' \<Longrightarrow> frame s t \<Longrightarrow> frame s t'"
  by (auto simp: router_bubble_def Let_def and_then_eq_Inr
        split: if_splits intro!: frame_put_connection_trans)

lemma router_arbitration_frame:
  assumes "for_each vs (\<lambda>v st. for_each (cells st) (router_arbitrate outs v) st) (nc, s) = Inr (nc', s')"
  shows "frame s s'"
proof -
  have "frame s (snd (nc', s'))"
  proof (rule for_each_invariant [where I = "\<lambda>st. frame s (snd st)", OF assms])
    show "frame s (snd (nc, s))" by simp
  next
    fix w t t'
    assume fr: "frame s (snd t)" and run: "for_each (cells t) (router_arbitrate outs w) t = Inr t'"
    show "frame s (snd t')"
    proof (rule for_each_invariant [where I = "\<lambda>st. frame s (snd st)", OF run fr])
      fix x u u' assume "frame s (snd u)" "router_arbitrate outs w x u = Inr u'"
      then show "frame s (snd u')"
        using router_arbitrate_frame [of outs w x "fst u" "snd u" "fst u'" "snd u'" s] by simp
    qed
  qed
  then show ?thesis by simp
qed

lemma router_forward_frame:
  assumes "SimInputBufferedVCRouter_TryForwardPropagation nc s = Inr (b, nc', s')"
  shows "frame s s'"
proof (cases b)
  case False
  with assms show ?thesis
    by (auto simp: SimInputBufferedVCRouter_TryForwardPropagation_def Let_def and_then_eq_Inr
          split: if_splits)
next
  case True
  with assms obtain nc3 nc4 s4 outs where
    arb: "for_each [0..<max_vc nc3]
            (\<lambda>v st. for_each [0..<length (input_buffers_router (fst st))]
                       (router_arbitrate outs v) st) (nc3, s) = Inr (nc4, s4)"
    and bub: "for_each [0..<length outs] (router_bubble outs) s4 = Inr s'"
    by (auto simp: SimInputBufferedVCRouter_TryForwardPropagation_def Let_def and_then_eq_Inr
          split: if_splits)
  from arb have "frame s s4"
    by (rule router_arbitration_frame
          [where cells = "\<lambda>st. [0..<length (input_buffers_router (fst st))]"])
  then show ?thesis
    by (rule for_each_invariant [where I = "frame s", OF bub]) (auto dest: router_bubble_frame)
qed

lemma router_reverse_frame:
  assumes "SimInputBufferedVCRouter_TryReversePropagation nc s = Inr (b, nc', s')"
  shows "frame s s'"
proof (cases "forward_propagated_cycle nc = GetCurrentCycle s")
  case True
  from router_reverse_Inr [OF assms True] show ?thesis
    by (rule for_each_invariant [where I = "frame s"]) (auto dest: router_send_credits_frame)
next
  case False
  with assms show ?thesis
    by (simp add: SimInputBufferedVCRouter_TryReversePropagation_def)
qed

lemma sink_full_credit_length:
  "sink_full_credit nc v c = Inr c' \<Longrightarrow>
   length (reverse_channels c') = length (reverse_channels c)"
  by (auto simp: sink_full_credit_def and_then_eq_Inr)

lemma sink_no_credit_length:
  "sink_no_credit cur v c = Inr c' \<Longrightarrow>
   length (reverse_channels c') = length (reverse_channels c)"
  by (auto simp: sink_no_credit_def and_then_eq_Inr)

lemma sink_forward_frame:
  assumes "SimNetworkInterfaceSink_TryForwardPropagation nc s = Inr (b, nc', s')"
  shows "frame s s'"
proof -
  have full: "\<And>nc vs c c'. for_each vs (sink_full_credit nc) c = Inr c' \<Longrightarrow>
      length (reverse_channels c') = length (reverse_channels c)"
    by (erule for_each_invariant
          [where I = "\<lambda>d. length (reverse_channels d) = length (reverse_channels c)" for c])
       (auto dest: sink_full_credit_length)
  have none: "\<And>cur vs c c'. for_each vs (sink_no_credit cur) c = Inr c' \<Longrightarrow>
      length (reverse_channels c') = length (reverse_channels c)"
    by (erule for_each_invariant
          [where I = "\<lambda>d. length (reverse_channels d) = length (reverse_channels c)" for c])
       (auto dest: sink_no_credit_length)
  from assms show ?thesis
    by (auto simp: SimNetworkInterfaceSink_TryForwardPropagation_def Let_def and_then_eq_Inr
          split: if_splits dest!: full none intro!: frame_put_connection)
qed

subsection \<open>A router output is written once per cycle\<close>

lemma router_arbitrate_keeps_stamped:
  assumes "router_arbitrate outs v i (nc, s) = Inr (nc', s')"
    and "cycle (forward_channels (connections s ! c)) = GetCurrentCycle s"
  shows "forward_channels (connections s' ! c) = forward_channels (connections s ! c)"
  using router_arbitrate_cases [OF assms(1)] assms(2)
  by (auto simp: nth_list_update)

lemma router_arbitrate_GetCurrentCycle:
  "router_arbitrate outs v i (nc, s) = Inr (nc', s') \<Longrightarrow> GetCurrentCycle s' = GetCurrentCycle s"
  by (drule router_arbitrate_cases) auto

lemma router_arbitration_keeps_stamped:
  assumes run: "for_each vs (\<lambda>v st. for_each (cells st) (router_arbitrate outs v) st) (nc, s) =
                  Inr (nc', s')"
    and stamped: "cycle (forward_channels (connections s ! c)) = GetCurrentCycle s"
  shows "forward_channels (connections s' ! c) = forward_channels (connections s ! c)"
proof -
  let ?I = "\<lambda>st. GetCurrentCycle (snd st) = GetCurrentCycle s \<and>
                 forward_channels (connections (snd st) ! c) = forward_channels (connections s ! c)"
  have step: "\<And>w x u u'. ?I u \<Longrightarrow> router_arbitrate outs w x u = Inr u' \<Longrightarrow> ?I u'"
  proof -
    fix w x u u' assume u: "?I u" "router_arbitrate outs w x u = Inr u'"
    from u(2) have run1: "router_arbitrate outs w x (fst u, snd u) = Inr (fst u', snd u')"
      by simp
    from u(1) stamped
    have "cycle (forward_channels (connections (snd u) ! c)) = GetCurrentCycle (snd u)"
      by simp
    from router_arbitrate_keeps_stamped [OF run1 this] router_arbitrate_GetCurrentCycle [OF run1]
      u(1)
    show "?I u'" by simp
  qed
  have "?I (nc', s')"
  proof (rule for_each_invariant [where I = ?I, OF run])
    show "?I (nc, s)" by simp
  next
    fix w t t'
    assume t: "?I t" "for_each (cells t) (router_arbitrate outs w) t = Inr t'"
    show "?I t'"
      by (rule for_each_invariant [where I = ?I, OF t(2) t(1)]) (rule step)
  qed
  then show ?thesis by simp
qed

lemma router_bubble_keeps_stamped:
  "router_bubble outs i t = Inr t' \<Longrightarrow>
   cycle (forward_channels (connections t ! c)) = GetCurrentCycle t \<Longrightarrow>
   forward_channels (connections t' ! c) = forward_channels (connections t ! c) \<and>
   GetCurrentCycle t' = GetCurrentCycle t"
  by (auto simp: router_bubble_def and_then_eq_Inr nth_list_update split: if_splits)

lemma router_bubbles_keep_stamped:
  assumes run: "for_each js (router_bubble outs) s = Inr s'"
    and stamped: "cycle (forward_channels (connections s ! c)) = GetCurrentCycle s"
  shows "forward_channels (connections s' ! c) = forward_channels (connections s ! c)"
proof -
  let ?I = "\<lambda>t. GetCurrentCycle t = GetCurrentCycle s \<and>
                forward_channels (connections t ! c) = forward_channels (connections s ! c)"
  have "?I s'"
  proof (rule for_each_invariant [where I = ?I, OF run])
    show "?I s" by simp
  next
    fix w t t' assume t: "?I t" "router_bubble outs w t = Inr t'"
    with stamped have "cycle (forward_channels (connections t ! c)) = GetCurrentCycle t"
      by simp
    from router_bubble_keeps_stamped [OF t(2) this] t(1) show "?I t'" by simp
  qed
  then show ?thesis by simp
qed

lemma router_forward_Inr:
  assumes "SimInputBufferedVCRouter_TryForwardPropagation nc s = Inr (b, nc', s')"
  shows "(\<not> b \<and> s' = s) \<or>
    (b \<and> (\<exists>nc3 nc4 s4.
       for_each [0..<max_vc nc3]
         (\<lambda>v st. for_each [0..<length (input_buffers_router (fst st))]
            (router_arbitrate (GetConnectionIndicesStore s (output_connection_index_start nc)
               (output_connection_count nc)) v) st) (nc3, s) = Inr (nc4, s4) \<and>
       for_each [0..<length (GetConnectionIndicesStore s (output_connection_index_start nc)
               (output_connection_count nc))]
         (router_bubble (GetConnectionIndicesStore s (output_connection_index_start nc)
               (output_connection_count nc))) s4 = Inr s'))"
  using assms
  by (auto simp: SimInputBufferedVCRouter_TryForwardPropagation_def Let_def and_then_eq_Inr
        split: if_splits)

lemma router_forward_keeps_stamped:
  assumes run: "SimInputBufferedVCRouter_TryForwardPropagation nc s = Inr (b, nc', s')"
    and stamped: "cycle (forward_channels (connections s ! c)) = GetCurrentCycle s"
  shows "forward_channels (connections s' ! c) = forward_channels (connections s ! c)"
proof -
  from router_forward_Inr [OF run] show ?thesis
  proof
    assume "\<not> b \<and> s' = s"
    then show ?thesis by simp
  next
    assume "b \<and> (\<exists>nc3 nc4 s4.
       for_each [0..<max_vc nc3]
         (\<lambda>v st. for_each [0..<length (input_buffers_router (fst st))]
            (router_arbitrate (GetConnectionIndicesStore s (output_connection_index_start nc)
               (output_connection_count nc)) v) st) (nc3, s) = Inr (nc4, s4) \<and>
       for_each [0..<length (GetConnectionIndicesStore s (output_connection_index_start nc)
               (output_connection_count nc))]
         (router_bubble (GetConnectionIndicesStore s (output_connection_index_start nc)
               (output_connection_count nc))) s4 = Inr s')"
    then obtain nc3 nc4 s4 outs where
      arb: "for_each [0..<max_vc nc3]
         (\<lambda>v st. for_each [0..<length (input_buffers_router (fst st))]
            (router_arbitrate outs v) st) (nc3, s) = Inr (nc4, s4)"
      and bub: "for_each [0..<length outs] (router_bubble outs) s4 = Inr s'"
      by blast
    from router_arbitration_keeps_stamped
      [where cells = "\<lambda>st. [0..<length (input_buffers_router (fst st))]", OF arb stamped]
    have keep4: "forward_channels (connections s4 ! c) = forward_channels (connections s ! c)" .
    from router_arbitration_frame
      [where cells = "\<lambda>st. [0..<length (input_buffers_router (fst st))]", OF arb]
    have "GetCurrentCycle s4 = GetCurrentCycle s" by (simp add: frame_fields)
    with keep4 stamped
    have "cycle (forward_channels (connections s4 ! c)) = GetCurrentCycle s4" by simp
    from router_bubbles_keep_stamped [OF bub this] keep4 show ?thesis by simp
  qed
qed

lemma router_arbitrate_skips_stamped:
  assumes run: "router_arbitrate outs v i (nc, s) = Inr (nc', s')"
    and look: "GetDestinationPortIndexAndVcIndex (routing s) (id_nc nc) (i, int v)
         (destination_index (hd (queue (input_buffers_router nc ! i ! v)))) = Some dst"
    and stamped: "cycle (forward_channels (connections s ! (outs ! nat (fst dst)))) =
                    GetCurrentCycle s"
  shows "nc' = nc \<and> s' = s"
  using router_arbitrate_cases [OF run] look stamped by auto

lemma router_arbitrate_winner:
  assumes run: "router_arbitrate outs v i (nc, s) = Inr (nc', s')"
    and changed: "(nc', s') \<noteq> (nc, s)"
  shows "\<exists>dst. GetDestinationPortIndexAndVcIndex (routing s) (id_nc nc) (i, int v)
           (destination_index (hd (queue (input_buffers_router nc ! i ! v)))) = Some dst \<and>
         forward_channels (connections s' ! (outs ! nat (fst dst))) =
           \<lparr>cycle = GetCurrentCycle s,
            phit = (hd (queue (input_buffers_router nc ! i ! v)))
              \<lparr>valid := True, vc := snd dst\<rparr>\<rparr>"
  using router_arbitrate_cases [OF run] changed by auto

text \<open>
  Claim C5. Within a router's forward pass an output connection is written with a valid
  phit at most once. An arbitration attempt that changes anything has written its phit,
  valid and stamped with the current cycle, on the forward channel of the output it was
  routed to. An attempt routed to an output whose forward channel already carries the
  current cycle is skipped: it changes nothing. And a forward channel that carries the
  current cycle is left as it is by all the arbitration attempts that follow, and by the
  whole forward propagation of any router (bubble fill included).
\<close>

theorem router_output_written_once:
  "(\<forall>outs v i nc s nc' s'.
      router_arbitrate outs v i (nc, s) = Inr (nc', s') \<and> (nc', s') \<noteq> (nc, s) \<longrightarrow>
      (\<exists>dst. GetDestinationPortIndexAndVcIndex (routing s) (id_nc nc) (i, int v)
           (destination_index (hd (queue (input_buffers_router nc ! i ! v)))) = Some dst \<and>
         forward_channels (connections s' ! (outs ! nat (fst dst))) =
           \<lparr>cycle = GetCurrentCycle s,
            phit = (hd (queue (input_buffers_router nc ! i ! v)))
              \<lparr>valid := True, vc := snd dst\<rparr>\<rparr>)) \<and>
   (\<forall>outs v i nc s nc' s' dst.
      router_arbitrate outs v i (nc, s) = Inr (nc', s') \<and>
      GetDestinationPortIndexAndVcIndex (routing s) (id_nc nc) (i, int v)
        (destination_index (hd (queue (input_buffers_router nc ! i ! v)))) = Some dst \<and>
      cycle (forward_channels (connections s ! (outs ! nat (fst dst)))) = GetCurrentCycle s \<longrightarrow>
      nc' = nc \<and> s' = s) \<and>
   (\<forall>vs cells outs nc s nc' s' c.
      for_each vs (\<lambda>v st. for_each (cells st) (router_arbitrate outs v) st) (nc, s) =
        Inr (nc', s') \<and>
      cycle (forward_channels (connections s ! c)) = GetCurrentCycle s \<longrightarrow>
      forward_channels (connections s' ! c) = forward_channels (connections s ! c)) \<and>
   (\<forall>nc s b nc' s' c.
      SimInputBufferedVCRouter_TryForwardPropagation nc s = Inr (b, nc', s') \<and>
      cycle (forward_channels (connections s ! c)) = GetCurrentCycle s \<longrightarrow>
      forward_channels (connections s' ! c) = forward_channels (connections s ! c))"
  using router_arbitrate_winner router_arbitrate_skips_stamped
    router_arbitration_keeps_stamped router_forward_keeps_stamped
  by (intro conjI allI impI; elim conjE) blast+

lemmas example_loaded_defs =
  example_router_loaded_def arriving_connections_def example_router_def
  example_router_sim_def example_connection_def example_routes_def example_bubble_def
  example_phit_def example_router_won_def example_arriving_sim_def

lemmas router_forward_defs =
  SimInputBufferedVCRouter_TryForwardPropagation_def router_update_credits_def
  router_update_credit_def router_reset_credit_to_send_def router_ingest_def
  router_arbitrate_def router_bubble_def GetConnectionIndicesStore_def
  GetDestinationPortIndexAndVcIndex_def vec_index_def vec_index_int_def vec_at_int_def vec_at_def
  GetSimConnectionByIndex_def GetCurrentCycle_def put_connection_def Let_def

lemma example_first_attempt:
  "router_arbitrate [2] 0 0
     (example_router_loaded, example_arriving_sim \<lparr>cycle = 0, phit = example_bubble\<rparr>) =
   Inr (example_router_won, example_arriving_sim \<lparr>cycle = 1, phit = example_phit\<rparr>)"
  by (simp add: router_forward_defs example_loaded_defs)

lemma example_second_attempt:
  "router_arbitrate [2] 0 1
     (example_router_won, example_arriving_sim \<lparr>cycle = 1, phit = example_phit\<rparr>) =
   Inr (example_router_won, example_arriving_sim \<lparr>cycle = 1, phit = example_phit\<rparr>)"
  by (simp add: router_forward_defs example_loaded_defs)

lemma example_arbitration:
  "for_each [0..<1] (\<lambda>v st. for_each [0..<2] (router_arbitrate [2] v) st)
     (example_router_loaded, example_arriving_sim \<lparr>cycle = 0, phit = example_bubble\<rparr>) =
   Inr (example_router_won, example_arriving_sim \<lparr>cycle = 1, phit = example_phit\<rparr>)"
  by (simp add: upt_rec example_first_attempt example_second_attempt [unfolded One_nat_def])

lemma example_forward_pass_stamped:
  "SimInputBufferedVCRouter_TryForwardPropagation example_router_loaded
     (example_arriving_sim \<lparr>cycle = 1, phit = example_phit\<rparr>) =
   Inr (True,
        example_router_loaded\<lparr>forward_propagated_cycle := 1, internal_propagated_cycle := 1\<rparr>,
        example_arriving_sim \<lparr>cycle = 1, phit = example_phit\<rparr>)"
  by (simp add: router_forward_defs example_loaded_defs upt_rec)

theorem router_output_written_once_witness:
  "router_arbitrate [2] 0 0
     (example_router_loaded, example_arriving_sim \<lparr>cycle = 0, phit = example_bubble\<rparr>) =
     Inr (example_router_won, example_arriving_sim \<lparr>cycle = 1, phit = example_phit\<rparr>) \<and>
   (example_router_won, example_arriving_sim \<lparr>cycle = 1, phit = example_phit\<rparr>) \<noteq>
     (example_router_loaded, example_arriving_sim \<lparr>cycle = 0, phit = example_bubble\<rparr>) \<and>
   forward_channels (connections (example_arriving_sim \<lparr>cycle = 1, phit = example_phit\<rparr>) ! 2) =
     \<lparr>cycle = 1, phit = example_phit\<rparr> \<and>
   GetDestinationPortIndexAndVcIndex
     (routing (example_arriving_sim \<lparr>cycle = 1, phit = example_phit\<rparr>))
     (id_nc example_router_won) (1, 0)
     (destination_index (hd (queue (input_buffers_router example_router_won ! 1 ! 0)))) =
     Some (0, 0) \<and>
   cycle (forward_channels
     (connections (example_arriving_sim \<lparr>cycle = 1, phit = example_phit\<rparr>) ! 2)) =
     GetCurrentCycle (example_arriving_sim \<lparr>cycle = 1, phit = example_phit\<rparr>) \<and>
   router_arbitrate [2] 0 1
     (example_router_won, example_arriving_sim \<lparr>cycle = 1, phit = example_phit\<rparr>) =
     Inr (example_router_won, example_arriving_sim \<lparr>cycle = 1, phit = example_phit\<rparr>) \<and>
   for_each [0..<1] (\<lambda>v st. for_each [0..<2] (router_arbitrate [2] v) st)
     (example_router_loaded, example_arriving_sim \<lparr>cycle = 0, phit = example_bubble\<rparr>) =
     Inr (example_router_won, example_arriving_sim \<lparr>cycle = 1, phit = example_phit\<rparr>) \<and>
   forward_channels (connections (example_arriving_sim \<lparr>cycle = 1, phit = example_phit\<rparr>) ! 0) =
     forward_channels (connections (example_arriving_sim \<lparr>cycle = 0, phit = example_bubble\<rparr>) ! 0) \<and>
   (\<exists>nc'. SimInputBufferedVCRouter_TryForwardPropagation example_router_loaded
            (example_arriving_sim \<lparr>cycle = 1, phit = example_phit\<rparr>) =
          Inr (True, nc', example_arriving_sim \<lparr>cycle = 1, phit = example_phit\<rparr>))"
proof -
  let ?s0 = "example_arriving_sim \<lparr>cycle = 0, phit = example_bubble\<rparr>"
  let ?s1 = "example_arriving_sim \<lparr>cycle = 1, phit = example_phit\<rparr>"
  have changed: "(example_router_won, ?s1) \<noteq> (example_router_loaded, ?s0)"
    by (simp add: example_loaded_defs)
  have look: "GetDestinationPortIndexAndVcIndex (routing ?s1) (id_nc example_router_won) (1, int 0)
         (destination_index (hd (queue (input_buffers_router example_router_won ! 1 ! 0)))) =
         Some (0, 0)"
    by (simp add: example_loaded_defs GetDestinationPortIndexAndVcIndex_def)
  have stamped: "cycle (forward_channels (connections ?s1 ! ([2] ! nat (fst (0::int, 0::int))))) =
      GetCurrentCycle ?s1"
    by (simp add: example_loaded_defs GetCurrentCycle_def)
  have input_stamped: "cycle (forward_channels (connections ?s0 ! 0)) = GetCurrentCycle ?s0"
    by (simp add: example_loaded_defs GetCurrentCycle_def)
  have output_stamped: "cycle (forward_channels (connections ?s1 ! 2)) = GetCurrentCycle ?s1"
    by (simp add: example_loaded_defs GetCurrentCycle_def)
  from router_output_written_once [THEN conjunct1, rule_format, OF conjI,
      OF example_first_attempt changed]
  have won: "forward_channels (connections ?s1 ! 2) = \<lparr>cycle = 1, phit = example_phit\<rparr>"
    by (simp add: example_loaded_defs GetDestinationPortIndexAndVcIndex_def GetCurrentCycle_def)
  from router_output_written_once [THEN conjunct2, THEN conjunct1, rule_format, OF conjI,
      OF example_second_attempt conjI, OF look stamped]
  have skipped: "example_router_won = example_router_won \<and> ?s1 = ?s1" .
  from router_output_written_once [THEN conjunct2, THEN conjunct2, THEN conjunct1, rule_format,
      OF conjI, OF example_arbitration input_stamped]
  have kept: "forward_channels (connections ?s1 ! 0) = forward_channels (connections ?s0 ! 0)" .
  from router_output_written_once [THEN conjunct2, THEN conjunct2, THEN conjunct2, rule_format,
      OF conjI, OF example_forward_pass_stamped output_stamped]
  have pass: "forward_channels (connections ?s1 ! 2) = forward_channels (connections ?s1 ! 2)" .
  from example_first_attempt changed won look output_stamped example_second_attempt
    example_arbitration kept example_forward_pass_stamped skipped pass
  show ?thesis
    by (intro conjI) simp_all
qed

subsection \<open>Ticks, and credits that gate transmission\<close>

lemma forward_phase_frame:
  assumes "forward_phase f cur nc s = Inr (b, nc', s')"
    and "\<And>nc s b nc' s'. f nc s = Inr (b, nc', s') \<Longrightarrow> frame s s'"
  shows "frame s s'"
  using forward_phase_Inr [OF assms(1)] assms(2) by auto

lemma reverse_phase_frame:
  assumes "reverse_phase f cur nc s = Inr (b, nc', s')"
    and "\<And>nc s b nc' s'. f nc s = Inr (b, nc', s') \<Longrightarrow> frame s s'"
  shows "frame s s'"
  using reverse_phase_Inr [OF assms(1)] assms(2) by auto

lemma base_Tick_frame:
  assumes "SimNetworkComponentBase_Tick f r nc s = Inr (b, nc', s')"
    and "\<And>nc s b nc' s'. f nc s = Inr (b, nc', s') \<Longrightarrow> frame s s'"
    and "\<And>nc s b nc' s'. r nc s = Inr (b, nc', s') \<Longrightarrow> frame s s'"
  shows "frame s s'"
proof -
  from base_Tick_Inr [OF assms(1)] obtain b1 nc1 s1 b2 where
    p: "forward_phase f (GetCurrentCycle s) nc s = Inr (b1, nc1, s1)"
       "reverse_phase r (GetCurrentCycle s) nc1 s1 = Inr (b2, nc', s')"
    by blast
  from forward_phase_frame [OF p(1) assms(2)] reverse_phase_frame [OF p(2) assms(3)]
  show ?thesis by (rule frame_trans)
qed

lemma base_Tick_preserves:
  assumes run: "SimNetworkComponentBase_Tick f r nc s = Inr (b, nc', s')" and P: "P nc"
    and f: "\<And>nc s b nc' s'. f nc s = Inr (b, nc', s') \<Longrightarrow> P nc \<Longrightarrow> P nc'"
    and r: "\<And>nc s b nc' s'. r nc s = Inr (b, nc', s') \<Longrightarrow> P nc \<Longrightarrow> P nc'"
    and fpc: "\<And>nc x. P (nc\<lparr>forward_propagated_cycle := x\<rparr>) = P nc"
    and rpc: "\<And>nc x. P (nc\<lparr>reverse_propagated_cycle := x\<rparr>) = P nc"
  shows "P nc'"
proof -
  from base_Tick_Inr [OF run] obtain b1 nc1 s1 b2 where
    p: "forward_phase f (GetCurrentCycle s) nc s = Inr (b1, nc1, s1)"
       "reverse_phase r (GetCurrentCycle s) nc1 s1 = Inr (b2, nc', s')"
    by blast
  from forward_phase_Inr [OF p(1)] P f fpc have "P nc1" by (auto split: if_splits)
  with reverse_phase_Inr [OF p(2)] r rpc show ?thesis by (auto split: if_splits)
qed

lemma src_Tick_frame: "SimNetworkInterfaceSrc_Tick nc s = Inr (b, nc', s') \<Longrightarrow> frame s s'"
  unfolding SimNetworkInterfaceSrc_Tick_def
  by (erule base_Tick_frame) (auto dest: src_forward_frame src_reverse_frame)

lemma link_Tick_frame: "SimLink_Tick nc s = Inr (b, nc', s') \<Longrightarrow> frame s s'"
  unfolding SimLink_Tick_def
  by (erule base_Tick_frame) (auto dest: link_forward_frame link_reverse_frame)

lemma router_Tick_frame: "SimInputBufferedVCRouter_Tick nc s = Inr (b, nc', s') \<Longrightarrow> frame s s'"
  unfolding SimInputBufferedVCRouter_Tick_def
  by (erule base_Tick_frame) (auto dest: router_forward_frame router_reverse_frame)

lemma sink_Tick_frame: "SimNetworkInterfaceSink_Tick nc s = Inr (b, nc', s') \<Longrightarrow> frame s s'"
  unfolding SimNetworkInterfaceSink_Tick_def
  by (erule base_Tick_frame)
     (auto dest: sink_forward_frame simp: SimNetworkInterfaceSink_TryReversePropagation_def)

lemma tick_each_Cons_Inr:
  "(tick_each tick (nc # ncs) c s = Inr (c', ncs', s')) =
   (\<exists>b nc1 s1 ncs1. tick nc s = Inr (b, nc1, s1) \<and>
      tick_each tick ncs (c \<and> b) s1 = Inr (c', ncs1, s') \<and> ncs' = nc1 # ncs1)"
  by (auto split: sum.splits)

lemma tick_each_frame:
  assumes "\<And>nc s b nc' s'. tick nc s = Inr (b, nc', s') \<Longrightarrow> frame s s'"
  shows "tick_each tick ncs c s = Inr (c', ncs', s') \<Longrightarrow> frame s s'"
proof (induction ncs arbitrary: c s ncs')
  case Nil
  then show ?case by simp
next
  case (Cons nc ncs)
  from Cons.prems obtain b nc1 s1 ncs1 where
    t: "tick nc s = Inr (b, nc1, s1)" "tick_each tick ncs (c \<and> b) s1 = Inr (c', ncs1, s')"
    unfolding tick_each_Cons_Inr by blast
  from assms [OF t(1)] Cons.IH [OF t(2)] show ?case by (rule frame_trans)
qed

lemma tick_each_list_all:
  assumes "\<And>nc s b nc' s'. tick nc s = Inr (b, nc', s') \<Longrightarrow> P nc \<Longrightarrow> P nc'"
  shows "tick_each tick ncs c s = Inr (c', ncs', s') \<Longrightarrow> list_all P ncs \<Longrightarrow> list_all P ncs'"
proof (induction ncs arbitrary: c s ncs')
  case Nil
  then show ?case by simp
next
  case (Cons nc ncs)
  from Cons.prems(1) obtain b nc1 s1 ncs1 where
    t: "tick nc s = Inr (b, nc1, s1)" "tick_each tick ncs (c \<and> b) s1 = Inr (c', ncs1, s')"
      "ncs' = nc1 # ncs1"
    unfolding tick_each_Cons_Inr by blast
  from assms [OF t(1)] Cons.IH [OF t(2)] Cons.prems(2) t(3) show ?case by simp
qed

lemma NocSimulator_Tick_Inr:
  assumes "NocSimulator_Tick s = Inr (b, s')"
  obtains c1 ncs1 t1 c2 ncs2 t2 c3 ncs3 t3 ncs4 t4 where
    "tick_each SimNetworkInterfaceSrc_Tick (network_interface_sources s) True s =
       Inr (c1, ncs1, t1)"
    "tick_each SimLink_Tick (links s) c1 (t1\<lparr>network_interface_sources := ncs1\<rparr>) =
       Inr (c2, ncs2, t2)"
    "tick_each SimInputBufferedVCRouter_Tick (routers s) c2 (t2\<lparr>links := ncs2\<rparr>) =
       Inr (c3, ncs3, t3)"
    "tick_each SimNetworkInterfaceSink_Tick (network_interface_sinks s) c3 (t3\<lparr>routers := ncs3\<rparr>) =
       Inr (b, ncs4, t4)"
    "frame s t1" "frame (t1\<lparr>network_interface_sources := ncs1\<rparr>) t2"
    "frame (t2\<lparr>links := ncs2\<rparr>) t3" "frame (t3\<lparr>routers := ncs3\<rparr>) t4"
    "s' = t4\<lparr>network_interface_sinks := ncs4\<rparr>"
proof -
  from assms obtain c1 ncs1 t1 where
    a: "tick_each SimNetworkInterfaceSrc_Tick (network_interface_sources s) True s =
       Inr (c1, ncs1, t1)"
    by (auto simp: NocSimulator_Tick_def and_then_eq_Inr)
  have f1: "frame s t1"
    by (rule tick_each_frame [OF _ a]) (rule src_Tick_frame)
  let ?u1 = "t1\<lparr>network_interface_sources := ncs1\<rparr>"
  from assms a obtain c2 ncs2 t2 where
    b: "tick_each SimLink_Tick (links ?u1) c1 ?u1 = Inr (c2, ncs2, t2)"
    by (auto simp: NocSimulator_Tick_def and_then_eq_Inr Let_def)
  have f2: "frame ?u1 t2"
    by (rule tick_each_frame [OF _ b]) (rule link_Tick_frame)
  let ?u2 = "t2\<lparr>links := ncs2\<rparr>"
  from assms a b obtain c3 ncs3 t3 where
    c: "tick_each SimInputBufferedVCRouter_Tick (routers ?u2) c2 ?u2 = Inr (c3, ncs3, t3)"
    by (auto simp: NocSimulator_Tick_def and_then_eq_Inr Let_def)
  have f3: "frame ?u2 t3"
    by (rule tick_each_frame [OF _ c]) (rule router_Tick_frame)
  let ?u3 = "t3\<lparr>routers := ncs3\<rparr>"
  from assms a b c obtain ncs4 t4 where
    d: "tick_each SimNetworkInterfaceSink_Tick (network_interface_sinks ?u3) c3 ?u3 =
          Inr (b, ncs4, t4)"
       "s' = t4\<lparr>network_interface_sinks := ncs4\<rparr>"
    by (auto simp: NocSimulator_Tick_def and_then_eq_Inr Let_def)
  have f4: "frame ?u3 t4"
    by (rule tick_each_frame [OF _ d(1)]) (rule sink_Tick_frame)
  have l: "links ?u1 = links s"
    using frame_fields [OF f1] by simp
  have r: "routers ?u2 = routers s"
    using frame_fields [OF f1] frame_fields [OF f2] by simp
  have k: "network_interface_sinks ?u3 = network_interface_sinks s"
    using frame_fields [OF f1] frame_fields [OF f2] frame_fields [OF f3] by simp
  show ?thesis
    by (rule that [OF a b [unfolded l] c [unfolded r] d(1) [unfolded k] f1 f2 f3 f4 d(2)])
qed

lemma list_all_update: "list_all P xs \<Longrightarrow> P x \<Longrightarrow> list_all P (xs[i := x])"
  by (auto simp: list_all_iff dest!: set_update_subset_insert [THEN subsetD])

lemma list_all_nth: "list_all P xs \<Longrightarrow> i < length xs \<Longrightarrow> P (xs ! i)"
  by (simp add: list_all_length)

lemma src_update_credit_nonnegative:
  "src_update_credit v nc = Inr nc' \<Longrightarrow> credit_nonnegative_src nc \<Longrightarrow>
   credit_nonnegative_src nc'"
proof -
  assume run: "src_update_credit v nc = Inr nc'" and nn: "credit_nonnegative_src nc"
  show ?thesis
  proof (cases "0 < credit (credit_update_src nc ! v)")
    case True
    with run have v: "v < length (credit_src nc)"
      and nc': "nc' = nc\<lparr>credit_src := (credit_src nc)
                  [v := credit_src nc ! v + credit (credit_update_src nc ! v)]\<rparr>"
      by (auto simp: src_update_credit_def and_then_eq_Inr)
    from nn v have "0 \<le> credit_src nc ! v"
      unfolding credit_nonnegative_src_def by (rule list_all_nth)
    with True nn show ?thesis
      by (simp add: nc' credit_nonnegative_src_def list_all_update)
  next
    case False
    with run nn show ?thesis
      by (auto simp: src_update_credit_def and_then_eq_Inr)
  qed
qed

lemma src_send_data_cases:
  "src_send_data vs cur nc s = Inr (b, nc', s') \<Longrightarrow>
   (\<not> b \<and> nc' = nc \<and> s' = s) \<or>
   (b \<and> (\<exists>v. v < length (credit_src nc) \<and> 0 < credit_src nc ! v \<and>
           v < length (data_to_send nc) \<and>
           sink_connection_index_src nc < length (connections s) \<and>
           nc' = nc\<lparr>credit_src := (credit_src nc)[v := credit_src nc ! v - 1],
                     data_to_send := (data_to_send nc)[v := tl (data_to_send nc ! v)]\<rparr> \<and>
           s' = put_connection (sink_connection_index_src nc)
                  ((connections s ! sink_connection_index_src nc)\<lparr>forward_channels :=
                     \<lparr>cycle = cur,
                      phit = (phit (hd (data_to_send nc ! v)))\<lparr>valid := True, vc := int v\<rparr>\<rparr>\<rparr>)
                  s))"
proof (induction vs)
  case Nil
  then show ?case by simp
next
  case (Cons v vs)
  show ?case
  proof (cases "data_to_send nc ! v \<noteq> [] \<and> cycle (hd (data_to_send nc ! v)) \<le> cur \<and>
                0 < credit_src nc ! v")
    case True
    with Cons.prems show ?thesis
      by (auto simp: and_then_eq_Inr vec_index_def split: sum.splits if_splits)
  next
    case False
    with Cons.prems have "src_send_data vs cur nc s = Inr (b, nc', s')"
      by (auto simp: and_then_eq_Inr vec_index_def split: sum.splits if_splits)
    then show ?thesis by (rule Cons.IH)
  qed
qed

lemma src_forward_Inr:
  assumes "SimNetworkInterfaceSrc_TryForwardPropagation nc s = Inr (b, nc', s')"
  obtains nc1 did nc2 s2 where
    "for_each [0..<length (credit_src nc)] src_update_credit nc = Inr nc1"
    "src_send_data [0..<length (data_to_send nc1)] (GetCurrentCycle s) nc1 s = Inr (did, nc2, s2)"
    "sink_connection_index_src nc2 < length (connections s2)"
    "b" "nc' = nc2\<lparr>forward_propagated_cycle := GetCurrentCycle s\<rparr>"
    "s' = (if \<not> did then
             put_connection (sink_connection_index_src nc2)
               ((connections s2 ! sink_connection_index_src nc2)\<lparr>forward_channels :=
                  \<lparr>cycle = GetCurrentCycle s,
                   phit = \<lparr>valid = False, data = 0, vc = 0, destination_index = 0\<rparr>\<rparr>\<rparr>) s2
           else s2)"
  using assms
  by (auto simp: SimNetworkInterfaceSrc_TryForwardPropagation_def Let_def and_then_eq_Inr
        DataPhit_overwritten split: if_splits)

lemma src_update_credits_nonnegative:
  assumes "for_each vs src_update_credit nc = Inr nc1" and "credit_nonnegative_src nc"
  shows "credit_nonnegative_src nc1"
  by (rule for_each_invariant [where I = credit_nonnegative_src, OF assms])
     (rule src_update_credit_nonnegative)

lemma src_forward_nonnegative:
  assumes run: "SimNetworkInterfaceSrc_TryForwardPropagation nc s = Inr (b, nc', s')"
    and nn: "credit_nonnegative_src nc"
  shows "credit_nonnegative_src nc'"
proof -
  from run obtain nc1 did nc2 s2 where
    upd: "for_each [0..<length (credit_src nc)] src_update_credit nc = Inr nc1"
    and send: "src_send_data [0..<length (data_to_send nc1)] (GetCurrentCycle s) nc1 s =
                 Inr (did, nc2, s2)"
    and nc': "nc' = nc2\<lparr>forward_propagated_cycle := GetCurrentCycle s\<rparr>"
    by (rule src_forward_Inr)
  from src_update_credits_nonnegative [OF upd nn] have "credit_nonnegative_src nc1" .
  with src_send_data_cases [OF send] have "credit_nonnegative_src nc2"
    by (auto simp: credit_nonnegative_src_def intro!: list_all_update)
  with nc' show ?thesis by (simp add: credit_nonnegative_src_def)
qed

lemma src_receive_credit_credit:
  "src_receive_credit cur s v (nc, k) = Inr (nc', k') \<Longrightarrow> credit_src nc' = credit_src nc"
  by (auto simp: src_receive_credit_def and_then_eq_Inr split: if_splits)

lemma src_reverse_credit:
  assumes "SimNetworkInterfaceSrc_TryReversePropagation nc s = Inr (b, nc', s')"
  shows "credit_src nc' = credit_src nc"
proof -
  from assms obtain n nc1 k where
    loop: "for_each [0..<n] (src_receive_credit (GetCurrentCycle s) s) (nc, 0) = Inr (nc1, k)"
    and nc': "credit_src nc' = credit_src nc1"
    by (auto simp: SimNetworkInterfaceSrc_TryReversePropagation_def Let_def and_then_eq_Inr
          split: if_splits)
  have "credit_src (fst (nc1, k)) = credit_src nc"
    by (rule for_each_invariant [where I = "\<lambda>st. credit_src (fst st) = credit_src nc", OF loop])
       (auto dest: src_receive_credit_credit)
  with nc' show ?thesis by simp
qed

lemma src_Tick_nonnegative:
  "SimNetworkInterfaceSrc_Tick nc s = Inr (b, nc', s') \<Longrightarrow> credit_nonnegative_src nc \<Longrightarrow>
   credit_nonnegative_src nc'"
  unfolding SimNetworkInterfaceSrc_Tick_def
  by (erule base_Tick_preserves [where P = credit_nonnegative_src])
     (auto dest: src_forward_nonnegative src_reverse_credit simp: credit_nonnegative_src_def)

lemma router_update_credit_nonnegative:
  assumes run: "router_update_credit i v nc = Inr nc'" and nn: "credit_nonnegative_router nc"
  shows "credit_nonnegative_router nc' \<and> credit_update_router nc' = credit_update_router nc"
proof (cases "0 < credit (credit_update_router nc ! i ! v)")
  case True
  with run have i: "i < length (credit_router nc)" and v: "v < length (credit_router nc ! i)"
    and nc': "nc' = nc\<lparr>credit_router := (credit_router nc)
                [i := (credit_router nc ! i)
                   [v := credit_router nc ! i ! v + credit (credit_update_router nc ! i ! v)]]\<rparr>"
    by (auto simp: router_update_credit_def and_then_eq_Inr)
  from nn i have row: "list_all (\<lambda>c. 0 \<le> c) (credit_router nc ! i)"
    unfolding credit_nonnegative_router_def by (rule list_all_nth)
  from row v have "0 \<le> credit_router nc ! i ! v" by (rule list_all_nth)
  with True row nn show ?thesis
    by (simp add: nc' credit_nonnegative_router_def list_all_update)
next
  case False
  with run nn show ?thesis
    by (auto simp: router_update_credit_def and_then_eq_Inr)
qed

lemma router_update_credits_nonnegative:
  assumes run: "router_update_credits nc = Inr nc'" and nn: "credit_nonnegative_router nc"
  shows "credit_nonnegative_router nc'"
proof -
  let ?I = credit_nonnegative_router
  from run have loop: "for_each [0..<length (credit_update_router nc)]
       (\<lambda>i nc1. for_each [0..<length (credit_update_router nc1 ! i)] (router_update_credit i) nc1)
       nc = Inr nc'"
    by (simp add: router_update_credits_def)
  show ?thesis
  proof (rule for_each_invariant [where I = ?I, OF loop nn])
    fix w t t'
    assume t: "?I t"
      "for_each [0..<length (credit_update_router t ! w)] (router_update_credit w) t = Inr t'"
    show "?I t'"
      by (rule for_each_invariant [where I = ?I, OF t(2) t(1)])
         (auto dest: router_update_credit_nonnegative)
  qed
qed

lemma router_reset_credit_to_send_credit:
  "router_reset_credit_to_send i nc = Inr nc' \<Longrightarrow> credit_router nc' = credit_router nc"
  by (auto simp: router_reset_credit_to_send_def and_then_eq_Inr)

lemma router_ingest_credit:
  "router_ingest ins s i nc = Inr nc' \<Longrightarrow> credit_router nc' = credit_router nc"
  by (auto simp: router_ingest_def and_then_eq_Inr split: if_splits)

lemma router_arbitrate_nonnegative:
  assumes run: "router_arbitrate outs v i (nc, s) = Inr (nc', s')"
    and nn: "credit_nonnegative_router nc"
  shows "credit_nonnegative_router nc'"
proof -
  from router_arbitrate_cases [OF run] show ?thesis
  proof
    assume "nc' = nc \<and> s' = s"
    with nn show ?thesis by simp
  next
    assume "\<exists>dst oc.
       i < length (input_buffers_router nc) \<and> v < length (input_buffers_router nc ! i) \<and>
       queue (input_buffers_router nc ! i ! v) \<noteq> [] \<and>
       GetDestinationPortIndexAndVcIndex (routing s) (id_nc nc) (i, int v)
         (destination_index (hd (queue (input_buffers_router nc ! i ! v)))) = Some dst \<and>
       0 \<le> fst dst \<and> nat (fst dst) < length (credit_router nc) \<and>
       0 \<le> snd dst \<and> nat (snd dst) < length (credit_router nc ! nat (fst dst)) \<and>
       0 < credit_router nc ! nat (fst dst) ! nat (snd dst) \<and>
       nat (fst dst) < length outs \<and> oc = outs ! nat (fst dst) \<and>
       oc < length (connections s) \<and>
       cycle (forward_channels (connections s ! oc)) \<noteq> GetCurrentCycle s \<and>
       i < length (input_credit_to_send nc) \<and> v < length (input_credit_to_send nc ! i) \<and>
       nc' = nc\<lparr>credit_router := (credit_router nc)
                   [nat (fst dst) := (credit_router nc ! nat (fst dst))
                      [nat (snd dst) :=
                         credit_router nc ! nat (fst dst) ! nat (snd dst) - 1]],
                 input_credit_to_send := (input_credit_to_send nc)
                   [i := (input_credit_to_send nc ! i)
                      [v := input_credit_to_send nc ! i ! v + 1]],
                 input_buffers_router := (input_buffers_router nc)
                   [i := (input_buffers_router nc ! i)
                      [v := (input_buffers_router nc ! i ! v)
                         \<lparr>queue := tl (queue (input_buffers_router nc ! i ! v))\<rparr>]]\<rparr> \<and>
       s' = put_connection oc
              ((connections s ! oc)\<lparr>forward_channels :=
                 \<lparr>cycle = GetCurrentCycle s,
                  phit = (hd (queue (input_buffers_router nc ! i ! v)))
                    \<lparr>valid := True, vc := snd dst\<rparr>\<rparr>\<rparr>) s"
    then obtain dst where
      o: "nat (fst dst) < length (credit_router nc)"
      and pos: "0 < credit_router nc ! nat (fst dst) ! nat (snd dst)"
      and nc': "credit_router nc' = (credit_router nc)
                   [nat (fst dst) := (credit_router nc ! nat (fst dst))
                      [nat (snd dst) :=
                         credit_router nc ! nat (fst dst) ! nat (snd dst) - 1]]"
      by auto
    from nn o have "list_all (\<lambda>c. 0 \<le> c) (credit_router nc ! nat (fst dst))"
      unfolding credit_nonnegative_router_def by (rule list_all_nth)
    with pos nn show ?thesis
      by (simp add: nc' credit_nonnegative_router_def list_all_update)
  qed
qed

lemma router_forward_nonnegative:
  assumes run: "SimInputBufferedVCRouter_TryForwardPropagation nc s = Inr (b, nc', s')"
    and nn: "credit_nonnegative_router nc"
  shows "credit_nonnegative_router nc'"
proof -
  let ?cur = "GetCurrentCycle s"
  from run obtain nc1 where
    upd: "(if internal_propagated_cycle nc \<noteq> ?cur then
             and_then (router_update_credits nc) (\<lambda>nc1.
               Inr (nc1\<lparr>internal_propagated_cycle := ?cur\<rparr>))
           else Inr nc) = Inr nc1"
    by (auto simp: SimInputBufferedVCRouter_TryForwardPropagation_def Let_def and_then_eq_Inr)
  have nn1: "credit_nonnegative_router nc1"
    using upd nn
    by (auto simp: and_then_eq_Inr credit_nonnegative_router_def split: if_splits
          dest!: router_update_credits_nonnegative [unfolded credit_nonnegative_router_def])
  show ?thesis
  proof (cases b)
    case False
    with run upd have "nc' = nc1"
      by (auto simp: SimInputBufferedVCRouter_TryForwardPropagation_def Let_def and_then_eq_Inr
            split: if_splits)
    with nn1 show ?thesis by simp
  next
    case True
    with run upd obtain nc2 nc3 nc4 s4 ins outs where
      reset: "for_each [0..<input_connection_count nc1] router_reset_credit_to_send nc1 = Inr nc2"
      and ingest: "for_each [0..<input_connection_count nc2] (router_ingest ins s) nc2 = Inr nc3"
      and arb: "for_each [0..<max_vc nc3]
            (\<lambda>v st. for_each [0..<length (input_buffers_router (fst st))]
                       (router_arbitrate outs v) st) (nc3, s) = Inr (nc4, s4)"
      and nc': "nc' = nc4\<lparr>forward_propagated_cycle := ?cur\<rparr>"
      by (auto simp: SimInputBufferedVCRouter_TryForwardPropagation_def Let_def and_then_eq_Inr
            split: if_splits)
    have "credit_router nc2 = credit_router nc1"
      by (rule for_each_invariant
            [where I = "\<lambda>t. credit_router t = credit_router nc1", OF reset])
         (auto dest: router_reset_credit_to_send_credit)
    moreover have "credit_router nc3 = credit_router nc2"
      by (rule for_each_invariant
            [where I = "\<lambda>t. credit_router t = credit_router nc2", OF ingest])
         (auto dest: router_ingest_credit)
    ultimately have nn3: "credit_nonnegative_router nc3"
      using nn1 by (simp add: credit_nonnegative_router_def)
    let ?I = "\<lambda>st. credit_nonnegative_router (fst st)"
    have "?I (nc4, s4)"
    proof (rule for_each_invariant [where I = ?I, OF arb])
      show "?I (nc3, s)" using nn3 by simp
    next
      fix w t t'
      assume t: "?I t"
        "for_each [0..<length (input_buffers_router (fst t))] (router_arbitrate outs w) t = Inr t'"
      show "?I t'"
      proof (rule for_each_invariant [where I = ?I, OF t(2) t(1)])
        fix x u u' assume "?I u" "router_arbitrate outs w x u = Inr u'"
        then show "?I u'"
          using router_arbitrate_nonnegative [of outs w x "fst u" "snd u" "fst u'" "snd u'"]
          by simp
      qed
    qed
    with nc' show ?thesis by (simp add: credit_nonnegative_router_def)
  qed
qed

lemma router_receive_credit_credit:
  "router_receive_credit s outs i v st = Inr st' \<Longrightarrow>
   credit_router (fst st') = credit_router (fst st) \<and>
   forward_propagated_cycle (fst st') = forward_propagated_cycle (fst st)"
  by (cases st, cases st')
     (auto simp: router_receive_credit_def and_then_eq_Inr split: if_splits)

lemma router_reverse_credit:
  assumes "SimInputBufferedVCRouter_TryReversePropagation nc s = Inr (b, nc', s')"
  shows "credit_router nc' = credit_router nc \<and>
         forward_propagated_cycle nc' = forward_propagated_cycle nc"
proof (cases "forward_propagated_cycle nc = GetCurrentCycle s")
  case False
  with assms show ?thesis
    by (simp add: SimInputBufferedVCRouter_TryReversePropagation_def)
next
  case True
  let ?I = "\<lambda>st. credit_router (fst st) = credit_router nc \<and>
                 forward_propagated_cycle (fst st) = forward_propagated_cycle nc"
  from assms True obtain s1 outs k m where
    loop: "for_each [0..<length (credit_update_router nc)]
             (router_receive_credits s1 outs) (nc, 0, 0) = Inr (nc', k, m)"
    by (auto simp: SimInputBufferedVCRouter_TryReversePropagation_def Let_def and_then_eq_Inr)
  have "?I (nc', k, m)"
  proof (rule for_each_invariant [where I = ?I, OF loop])
    show "?I (nc, 0, 0)" by simp
  next
    fix w t t' assume t: "?I t" "router_receive_credits s1 outs w t = Inr t'"
    from t(2) have inner: "for_each [0..<length (credit_update_router (fst t) ! w)]
         (router_receive_credit s1 outs w) t = Inr t'"
      by (auto simp: router_receive_credits_def and_then_eq_Inr)
    show "?I t'"
      by (rule for_each_invariant [where I = ?I, OF inner t(1)])
         (auto dest: router_receive_credit_credit)
  qed
  then show ?thesis by simp
qed

lemma router_Tick_nonnegative:
  "SimInputBufferedVCRouter_Tick nc s = Inr (b, nc', s') \<Longrightarrow> credit_nonnegative_router nc \<Longrightarrow>
   credit_nonnegative_router nc'"
  unfolding SimInputBufferedVCRouter_Tick_def
  by (erule base_Tick_preserves [where P = credit_nonnegative_router])
     (auto dest: router_forward_nonnegative router_reverse_credit
           simp: credit_nonnegative_router_def)

lemma NocSimulator_Tick_components:
  assumes "NocSimulator_Tick s = Inr (b, s')"
  obtains c1 ncs1 t1 c2 ncs2 t2 c3 ncs3 t3 ncs4 t4 where
    "tick_each SimNetworkInterfaceSrc_Tick (network_interface_sources s) True s =
       Inr (c1, ncs1, t1)"
    "tick_each SimLink_Tick (links s) c1 (t1\<lparr>network_interface_sources := ncs1\<rparr>) =
       Inr (c2, ncs2, t2)"
    "tick_each SimInputBufferedVCRouter_Tick (routers s) c2 (t2\<lparr>links := ncs2\<rparr>) =
       Inr (c3, ncs3, t3)"
    "tick_each SimNetworkInterfaceSink_Tick (network_interface_sinks s) c3 (t3\<lparr>routers := ncs3\<rparr>) =
       Inr (b, ncs4, t4)"
    "network_interface_sources s' = ncs1" "links s' = ncs2" "routers s' = ncs3"
    "network_interface_sinks s' = ncs4"
    "cycle_sim s' = cycle_sim s" "routing s' = routing s"
    "connection_indices_store s' = connection_indices_store s"
    "length (connections s') = length (connections s)"
    "connections s' = connections t4"
proof -
  from assms obtain c1 ncs1 t1 c2 ncs2 t2 c3 ncs3 t3 ncs4 t4 where
    t: "tick_each SimNetworkInterfaceSrc_Tick (network_interface_sources s) True s =
       Inr (c1, ncs1, t1)"
    "tick_each SimLink_Tick (links s) c1 (t1\<lparr>network_interface_sources := ncs1\<rparr>) =
       Inr (c2, ncs2, t2)"
    "tick_each SimInputBufferedVCRouter_Tick (routers s) c2 (t2\<lparr>links := ncs2\<rparr>) =
       Inr (c3, ncs3, t3)"
    "tick_each SimNetworkInterfaceSink_Tick (network_interface_sinks s) c3 (t3\<lparr>routers := ncs3\<rparr>) =
       Inr (b, ncs4, t4)"
    and f: "frame s t1" "frame (t1\<lparr>network_interface_sources := ncs1\<rparr>) t2"
    "frame (t2\<lparr>links := ncs2\<rparr>) t3" "frame (t3\<lparr>routers := ncs3\<rparr>) t4"
    and s': "s' = t4\<lparr>network_interface_sinks := ncs4\<rparr>"
    by (rule NocSimulator_Tick_Inr)
  note ff = frame_fields [OF f(1)] frame_fields [OF f(2)] frame_fields [OF f(3)]
    frame_fields [OF f(4)]
  show ?thesis
    by (rule that [OF t]) (use ff in \<open>simp_all add: s'\<close>)
qed

lemma NocSimulator_Tick_nonnegative:
  assumes run: "NocSimulator_Tick s = Inr (b, s')" and nn: "credits_nonnegative s"
  shows "credits_nonnegative s'"
proof -
  from run obtain c1 ncs1 t1 c2 ncs2 t2 c3 ncs3 t3 where
    a: "tick_each SimNetworkInterfaceSrc_Tick (network_interface_sources s) True s =
       Inr (c1, ncs1, t1)"
    and c: "tick_each SimInputBufferedVCRouter_Tick (routers s) c2 (t2\<lparr>links := ncs2\<rparr>) =
       Inr (c3, ncs3, t3)"
    and s': "network_interface_sources s' = ncs1" "routers s' = ncs3"
    by (rule NocSimulator_Tick_components)
  from tick_each_list_all [where P = credit_nonnegative_src, OF src_Tick_nonnegative a]
    tick_each_list_all [where P = credit_nonnegative_router, OF router_Tick_nonnegative c] nn
  show ?thesis
    by (simp add: credits_nonnegative_def s')
qed

lemma run_ticks_invariant:
  assumes step: "\<And>s b s'. NocSimulator_Tick s = Inr (b, s') \<Longrightarrow> I s \<Longrightarrow> I s'"
    and run: "run_ticks s n = Some (Inr (s', k))" and inv: "I s"
  shows "I s'"
proof -
  have "\<forall>s' k. y = Inr (s', k) \<longrightarrow> I s \<longrightarrow> I s'" if "run_ticks s n = Some y" for y
  proof (rule run_ticks.raw_induct
      [where P = "\<lambda>s n y. \<forall>s' k. y = Inr (s', k) \<longrightarrow> I s \<longrightarrow> I s'", rotated, OF that])
    fix f :: "NocSimulator \<Rightarrow> int \<Rightarrow> (NocSimulator \<times> int) outcome option"
      and s n y
    assume IH: "\<And>s n y. f s n = Some y \<Longrightarrow> \<forall>s' k. y = Inr (s', k) \<longrightarrow> I s \<longrightarrow> I s'"
      and body: "(case NocSimulator_Tick s of Inl e \<Rightarrow> Some (Inl e)
          | Inr (converged, sim1) \<Rightarrow>
              if converged then Some (Inr (sim1, n + 1)) else f sim1 (n + 1)) = Some y"
    show "\<forall>s' k. y = Inr (s', k) \<longrightarrow> I s \<longrightarrow> I s'"
    proof (intro allI impI)
      fix s' k assume y: "y = Inr (s', k)" and Is: "I s"
      from body y obtain b s1 where tick: "NocSimulator_Tick s = Inr (b, s1)"
        by (auto split: sum.splits)
      from step [OF tick Is] have I1: "I s1" .
      show "I s'"
      proof (cases b)
        case True
        with body tick y I1 show ?thesis by simp
      next
        case False
        with body tick have "f s1 (n + 1) = Some y" by simp
        from IH [OF this] y I1 show ?thesis by simp
      qed
    qed
  qed
  with run inv show ?thesis by blast
qed

lemma RunCycle_Inr:
  "RunCycle s m = Some (Inr (st, s')) \<Longrightarrow>
   \<exists>k. run_ticks (s\<lparr>cycle_sim := cycle_sim s + 1\<rparr>) 0 = Some (Inr (s', k)) \<and>
       st = (if connections s' \<noteq> [] \<and> m \<le> k then InternalError k (cycle_sim s') else OkStatus)"
  by (auto simp: RunCycle_def split: option.splits sum.splits)

lemmas example_net_defs =
  example_net_def example_net_start_def example_net_sent_def example_net_converged_def
  example_net_src_def example_net_sink_def example_connection_def example_phit_def
  example_bubble_def no_routes_def

lemmas tick_defs =
  NocSimulator_Tick_def SimNetworkInterfaceSrc_Tick_def SimNetworkInterfaceSink_Tick_def
  SimLink_Tick_def SimInputBufferedVCRouter_Tick_def
  SimNetworkComponentBase_Tick_def forward_phase_def reverse_phase_def
  SimNetworkInterfaceSrc_TryForwardPropagation_def SimNetworkInterfaceSrc_TryReversePropagation_def
  SimNetworkInterfaceSink_TryForwardPropagation_def SimNetworkInterfaceSink_TryReversePropagation_def
  src_update_credit_def src_receive_credit_def sink_full_credit_def sink_no_credit_def
  vec_index_def vec_index_int_def vec_at_def vec_at_int_def GetSimConnectionByIndex_def
  GetCurrentCycle_def put_connection_def Let_def

lemma example_net_first_tick:
  "NocSimulator_Tick (example_net_start\<lparr>cycle_sim := cycle_sim example_net_start + 1\<rparr>) =
     Inr (False, example_net_sent)"
  by (simp add: tick_defs example_net_defs upt_rec)

lemma example_net_second_tick:
  "NocSimulator_Tick example_net_sent = Inr (True, example_net_converged)"
  by (simp add: tick_defs example_net_defs upt_rec)

lemma example_net_run:
  "RunCycle example_net_start 10 = Some (Inr (OkStatus, example_net_converged))"
  by (simp add: RunCycle_def run_ticks.simps [of "example_net_start\<lparr>cycle_sim := _\<rparr>"]
        run_ticks.simps [of example_net_sent]
        example_net_first_tick example_net_second_tick)

lemma src_update_credits_index:
  assumes "for_each vs src_update_credit nc = Inr nc1"
  shows "sink_connection_index_src nc1 = sink_connection_index_src nc"
  by (rule for_each_invariant
        [where I = "\<lambda>t. sink_connection_index_src t = sink_connection_index_src nc", OF assms])
     (auto simp: src_update_credit_def and_then_eq_Inr split: if_splits)

lemma src_forward_spends_credit:
  assumes run: "SimNetworkInterfaceSrc_TryForwardPropagation nc s = Inr (b, nc', s')"
    and upd: "for_each [0..<length (credit_src nc)] src_update_credit nc = Inr nc1"
  shows "if valid (phit (forward_channels (connections s' ! sink_connection_index_src nc)))
         then \<exists>v. vc (phit (forward_channels (connections s' ! sink_connection_index_src nc))) =
                    int v \<and>
                  0 < credit_src nc1 ! v \<and>
                  credit_src nc' = (credit_src nc1)[v := credit_src nc1 ! v - 1]
         else credit_src nc' = credit_src nc1"
proof -
  from run obtain nc1' did nc2 s2 where
    upd': "for_each [0..<length (credit_src nc)] src_update_credit nc = Inr nc1'"
    and send: "src_send_data [0..<length (data_to_send nc1')] (GetCurrentCycle s) nc1' s =
                 Inr (did, nc2, s2)"
    and idx: "sink_connection_index_src nc2 < length (connections s2)"
    and nc': "nc' = nc2\<lparr>forward_propagated_cycle := GetCurrentCycle s\<rparr>"
    and s': "s' = (if \<not> did then
             put_connection (sink_connection_index_src nc2)
               ((connections s2 ! sink_connection_index_src nc2)\<lparr>forward_channels :=
                  \<lparr>cycle = GetCurrentCycle s,
                   phit = \<lparr>valid = False, data = 0, vc = 0, destination_index = 0\<rparr>\<rparr>\<rparr>) s2
           else s2)"
    by (rule src_forward_Inr)
  from upd upd' have eq: "nc1' = nc1" by simp
  note index = src_update_credits_index [OF upd]
  from src_send_data_cases [OF send] show ?thesis
  proof
    assume "\<not> did \<and> nc2 = nc1' \<and> s2 = s"
    with idx nc' s' eq index show ?thesis by simp
  next
    assume "did \<and> (\<exists>v. v < length (credit_src nc1') \<and> 0 < credit_src nc1' ! v \<and>
           v < length (data_to_send nc1') \<and>
           sink_connection_index_src nc1' < length (connections s) \<and>
           nc2 = nc1'\<lparr>credit_src := (credit_src nc1')[v := credit_src nc1' ! v - 1],
                     data_to_send := (data_to_send nc1')[v := tl (data_to_send nc1' ! v)]\<rparr> \<and>
           s2 = put_connection (sink_connection_index_src nc1')
                  ((connections s ! sink_connection_index_src nc1')\<lparr>forward_channels :=
                     \<lparr>cycle = GetCurrentCycle s,
                      phit = (phit (hd (data_to_send nc1' ! v)))\<lparr>valid := True, vc := int v\<rparr>\<rparr>\<rparr>)
                  s)"
    with nc' s' eq index show ?thesis by auto
  qed
qed

lemma router_arbitrate_spends_credit:
  assumes run: "router_arbitrate outs v i (nc, s) = Inr (nc', s')"
    and changed: "(nc', s') \<noteq> (nc, s)"
  shows "\<exists>dst. GetDestinationPortIndexAndVcIndex (routing s) (id_nc nc) (i, int v)
           (destination_index (hd (queue (input_buffers_router nc ! i ! v)))) = Some dst \<and>
         0 < credit_router nc ! nat (fst dst) ! nat (snd dst) \<and>
         credit_router nc' = (credit_router nc)
           [nat (fst dst) := (credit_router nc ! nat (fst dst))
              [nat (snd dst) := credit_router nc ! nat (fst dst) ! nat (snd dst) - 1]] \<and>
         valid (phit (forward_channels (connections s' ! (outs ! nat (fst dst))))) \<and>
         vc (phit (forward_channels (connections s' ! (outs ! nat (fst dst))))) = snd dst"
  using router_arbitrate_cases [OF run] changed by auto

lemma RunCycle_nonnegative:
  assumes run: "RunCycle s m = Some (Inr (st, s'))" and nn: "credits_nonnegative s"
  shows "credits_nonnegative s'"
proof -
  from RunCycle_Inr [OF run] obtain k where
    loop: "run_ticks (s\<lparr>cycle_sim := cycle_sim s + 1\<rparr>) 0 = Some (Inr (s', k))"
    by blast
  from nn have "credits_nonnegative (s\<lparr>cycle_sim := cycle_sim s + 1\<rparr>)"
    by (simp add: credits_nonnegative_def)
  with loop show ?thesis
    by (rule run_ticks_invariant [where I = credits_nonnegative, rotated])
       (rule NocSimulator_Tick_nonnegative)
qed

lemma router_arbitrate_port:
  assumes run: "router_arbitrate outs v i (m, t) = Inr (m', t')"
    and outs: "distinct outs" "p < length outs"
    and cur: "GetCurrentCycle t = cur"
    and inv: "credit_spent_on cur before row0
                (forward_channels (connections t ! (outs ! p))) (credit_router m ! p)"
  shows "GetCurrentCycle t' = cur \<and>
         credit_spent_on cur before row0
           (forward_channels (connections t' ! (outs ! p))) (credit_router m' ! p)"
  using router_arbitrate_cases [OF run]
proof (elim disjE exE conjE)
  assume "m' = m" "t' = t"
  with cur inv show ?thesis by simp
next
  fix dst oc
  assume a: "0 \<le> fst dst" "nat (fst dst) < length (credit_router m)"
    "0 \<le> snd dst" "nat (snd dst) < length (credit_router m ! nat (fst dst))"
    "0 < credit_router m ! nat (fst dst) ! nat (snd dst)"
    "nat (fst dst) < length outs" "oc = outs ! nat (fst dst)"
    "oc < length (connections t)"
    "cycle (forward_channels (connections t ! oc)) \<noteq> GetCurrentCycle t"
    and m': "m' = m\<lparr>credit_router := (credit_router m)
                   [nat (fst dst) := (credit_router m ! nat (fst dst))
                      [nat (snd dst) :=
                         credit_router m ! nat (fst dst) ! nat (snd dst) - 1]],
                 input_credit_to_send := (input_credit_to_send m)
                   [i := (input_credit_to_send m ! i)
                      [v := input_credit_to_send m ! i ! v + 1]],
                 input_buffers_router := (input_buffers_router m)
                   [i := (input_buffers_router m ! i)
                      [v := (input_buffers_router m ! i ! v)
                         \<lparr>queue := tl (queue (input_buffers_router m ! i ! v))\<rparr>]]\<rparr>"
    and t': "t' = put_connection oc
              ((connections t ! oc)\<lparr>forward_channels :=
                 \<lparr>cycle = GetCurrentCycle t,
                  phit = (hd (queue (input_buffers_router m ! i ! v)))
                    \<lparr>valid := True, vc := snd dst\<rparr>\<rparr>\<rparr>) t"
  from cur t' have cur': "GetCurrentCycle t' = cur" by simp
  show ?thesis
  proof (cases "nat (fst dst) = p")
    case True
    with a cur have unstamped: "cycle (forward_channels (connections t ! (outs ! p))) \<noteq> cur"
      by simp
    with inv have same: "forward_channels (connections t ! (outs ! p)) = before"
      "credit_router m ! p = row0"
      by (simp_all add: credit_spent_on_def)
    from same unstamped have before: "cycle before \<noteq> cur" by simp
    from True a have ch: "forward_channels (connections t' ! (outs ! p)) =
        \<lparr>cycle = cur, phit = (hd (queue (input_buffers_router m ! i ! v)))
                    \<lparr>valid := True, vc := snd dst\<rparr>\<rparr>"
      by (simp add: t' cur)
    from True a have row: "credit_router m' ! p = row0[nat (snd dst) := row0 ! nat (snd dst) - 1]"
      by (simp add: m' same [symmetric])
    from True a same have "nat (snd dst) < length row0" "0 < row0 ! nat (snd dst)" by auto
    with a(3) before show ?thesis
      unfolding credit_spent_on_def ch row
      by (auto intro!: exI [of _ "nat (snd dst)"] simp: cur')
  next
    case False
    with outs a have "outs ! p \<noteq> oc" by (simp add: nth_eq_iff_index_eq)
    with False inv cur' show ?thesis by (simp add: t' m')
  qed
qed

lemma router_arbitration_port:
  assumes run: "for_each vs (\<lambda>v st. for_each (cells st) (router_arbitrate outs v) st) (nc, s) =
                  Inr (nc', s')"
    and outs: "distinct outs" "p < length outs"
  shows "GetCurrentCycle s' = GetCurrentCycle s \<and>
         credit_spent_on (GetCurrentCycle s) (forward_channels (connections s ! (outs ! p)))
           (credit_router nc ! p)
           (forward_channels (connections s' ! (outs ! p))) (credit_router nc' ! p)"
proof -
  let ?cur = "GetCurrentCycle s"
  let ?I = "\<lambda>st. GetCurrentCycle (snd st) = ?cur \<and>
      credit_spent_on ?cur (forward_channels (connections s ! (outs ! p))) (credit_router nc ! p)
        (forward_channels (connections (snd st) ! (outs ! p))) (credit_router (fst st) ! p)"
  have "?I (nc', s')"
  proof (rule for_each_invariant [where I = ?I, OF run])
    show "?I (nc, s)" by (simp add: credit_spent_on_def)
  next
    fix w st st'
    assume inv: "?I st" and inner: "for_each (cells st) (router_arbitrate outs w) st = Inr st'"
    show "?I st'"
    proof (rule for_each_invariant [where I = ?I, OF inner inv])
      fix x u u' assume u: "?I u" "router_arbitrate outs w x u = Inr u'"
      from u(2) have "router_arbitrate outs w x (fst u, snd u) = Inr (fst u', snd u')" by simp
      from router_arbitrate_port [OF this outs conjunct1 [OF u(1)] conjunct2 [OF u(1)]]
      show "?I u'" .
    qed
  qed
  then show ?thesis by simp
qed

lemma router_bubble_port:
  assumes run: "router_bubble outs j t = Inr t'"
    and outs: "distinct outs" "p < length outs"
  shows "GetCurrentCycle t' = GetCurrentCycle t \<and>
         forward_channels (connections t' ! (outs ! p)) =
           (if j = p \<and> cycle (forward_channels (connections t ! (outs ! p))) \<noteq> GetCurrentCycle t
            then \<lparr>cycle = GetCurrentCycle t,
                  phit = (phit (forward_channels (connections t ! (outs ! p))))
                    \<lparr>valid := False, data := 0, vc := 0, destination_index := 0\<rparr>\<rparr>
            else forward_channels (connections t ! (outs ! p)))"
proof -
  from run have j: "j < length outs" "outs ! j < length (connections t)"
    by (auto simp: router_bubble_def and_then_eq_Inr)
  show ?thesis
  proof (cases "j = p")
    case True
    with run j show ?thesis
      by (auto simp: router_bubble_def and_then_eq_Inr split: if_splits)
  next
    case False
    with outs j have "outs ! p \<noteq> outs ! j" by (simp add: nth_eq_iff_index_eq)
    with run j show ?thesis
      by (auto simp: router_bubble_def and_then_eq_Inr split: if_splits)
  qed
qed

lemma router_bubbles_port:
  assumes run: "for_each [0..<length outs] (router_bubble outs) s = Inr s'"
    and outs: "distinct outs" "p < length outs"
  shows "forward_channels (connections s' ! (outs ! p)) =
           (if cycle (forward_channels (connections s ! (outs ! p))) \<noteq> GetCurrentCycle s
            then \<lparr>cycle = GetCurrentCycle s,
                  phit = (phit (forward_channels (connections s ! (outs ! p))))
                    \<lparr>valid := False, data := 0, vc := 0, destination_index := 0\<rparr>\<rparr>
            else forward_channels (connections s ! (outs ! p)))"
    (is "?ch s' = ?final")
proof -
  let ?cur = "GetCurrentCycle s"
  let ?I = "\<lambda>t. GetCurrentCycle t = ?cur \<and> (?ch t = ?ch s \<or> ?ch t = ?final)"
  show ?thesis
  proof (rule for_each_establishes [where I = ?I and v = p and Q = "\<lambda>t. ?ch t = ?final", OF run])
    show "p \<in> set [0..<length outs]" using outs by simp
  next
    show "?I s" by simp
  next
    fix w t t' assume "?I t" "router_bubble outs w t = Inr t'"
    with router_bubble_port [OF this(2) outs] show "?I t'"
      by (auto split: if_splits)
  next
    fix t t' assume "?I t" "router_bubble outs p t = Inr t'"
    with router_bubble_port [OF this(2) outs] show "?ch t' = ?final"
      by (auto split: if_splits)
  next
    fix w t t' assume "w \<noteq> p" "?ch t = ?final" "router_bubble outs w t = Inr t'"
    with router_bubble_port [OF this(3) outs] show "?ch t' = ?final"
      by simp
  qed
qed

lemma router_forward_spends_credit:
  assumes run: "SimInputBufferedVCRouter_TryForwardPropagation nc s = Inr (b, nc', s')"
    and upd: "(if internal_propagated_cycle nc \<noteq> GetCurrentCycle s
               then router_update_credits nc else Inr nc) = Inr nc1"
    and outs: "distinct (GetConnectionIndicesStore s (output_connection_index_start nc)
                 (output_connection_count nc))"
      "p < length (GetConnectionIndicesStore s (output_connection_index_start nc)
                 (output_connection_count nc))"
  shows "let oc = GetConnectionIndicesStore s (output_connection_index_start nc)
                    (output_connection_count nc) ! p;
             before = forward_channels (connections s ! oc);
             after = forward_channels (connections s' ! oc)
         in if b \<and> cycle before \<noteq> GetCurrentCycle s
            then cycle after = GetCurrentCycle s \<and>
                 (if valid (phit after)
                  then \<exists>v. vc (phit after) = int v \<and> v < length (credit_router nc1 ! p) \<and>
                         0 < credit_router nc1 ! p ! v \<and>
                         credit_router nc' ! p =
                           (credit_router nc1 ! p)[v := credit_router nc1 ! p ! v - 1]
                  else credit_router nc' ! p = credit_router nc1 ! p)
            else after = before \<and> credit_router nc' ! p = credit_router nc1 ! p"
proof -
  let ?cur = "GetCurrentCycle s"
  let ?outs = "GetConnectionIndicesStore s (output_connection_index_start nc)
                 (output_connection_count nc)"
  let ?before = "forward_channels (connections s ! (?outs ! p))"
  from run obtain nc0 where
    upd0: "(if internal_propagated_cycle nc \<noteq> ?cur then
             and_then (router_update_credits nc) (\<lambda>nc1.
               Inr (nc1\<lparr>internal_propagated_cycle := ?cur\<rparr>))
           else Inr nc) = Inr nc0"
    by (auto simp: SimInputBufferedVCRouter_TryForwardPropagation_def Let_def and_then_eq_Inr)
  from upd0 upd have c0: "credit_router nc0 = credit_router nc1"
    by (auto simp: and_then_eq_Inr split: if_splits)
  show ?thesis
  proof (cases b)
    case False
    with run upd0 have "nc' = nc0" "s' = s"
      by (auto simp: SimInputBufferedVCRouter_TryForwardPropagation_def Let_def and_then_eq_Inr
            split: if_splits)
    with False c0 show ?thesis by (simp add: Let_def)
  next
    case True
    with run upd0 obtain nc2 nc3 nc4 s4 ins where
      reset: "for_each [0..<input_connection_count nc0] router_reset_credit_to_send nc0 = Inr nc2"
      and ingest: "for_each [0..<input_connection_count nc2] (router_ingest ins s) nc2 = Inr nc3"
      and arb: "for_each [0..<max_vc nc3]
            (\<lambda>v st. for_each [0..<length (input_buffers_router (fst st))]
                       (router_arbitrate ?outs v) st) (nc3, s) = Inr (nc4, s4)"
      and bub: "for_each [0..<length ?outs] (router_bubble ?outs) s4 = Inr s'"
      and nc': "nc' = nc4\<lparr>forward_propagated_cycle := ?cur\<rparr>"
      by (auto simp: SimInputBufferedVCRouter_TryForwardPropagation_def Let_def and_then_eq_Inr
            split: if_splits)
    have "credit_router nc2 = credit_router nc0"
      by (rule for_each_invariant
            [where I = "\<lambda>t. credit_router t = credit_router nc0", OF reset])
         (auto dest: router_reset_credit_to_send_credit)
    moreover have "credit_router nc3 = credit_router nc2"
      by (rule for_each_invariant
            [where I = "\<lambda>t. credit_router t = credit_router nc2", OF ingest])
         (auto dest: router_ingest_credit)
    ultimately have c3: "credit_router nc3 = credit_router nc1" using c0 by simp
    from router_arbitration_port
      [where cells = "\<lambda>st. [0..<length (input_buffers_router (fst st))]", OF arb outs]
    have cur4: "GetCurrentCycle s4 = ?cur"
      and spent: "credit_spent_on ?cur ?before (credit_router nc1 ! p)
           (forward_channels (connections s4 ! (?outs ! p))) (credit_router nc4 ! p)"
      by (simp_all add: c3)
    note final = router_bubbles_port [OF bub outs, unfolded cur4]
    from spent final True nc' show ?thesis
      unfolding Let_def credit_spent_on_def
      by (auto split: if_splits)
  qed
qed

text \<open>
  Claim C4. A source's forward propagation puts a valid phit on its connection only for a
  VC whose credit, after the credit loop of the same pass, is positive, and takes exactly
  one credit of that VC; when it sends a bubble the credits stay. An arbitration attempt
  of a router that changes anything has found the credit of the output port and VC it was
  routed to positive, has written a valid phit for that VC on that output and has taken
  exactly one credit there. A router's whole forward propagation, its output ports being
  on distinct connections, leaves on an output that was not stamped before either a valid
  phit of one VC whose credit, after the credit update of the same pass, was positive, with
  exactly one credit of that VC taken, or a bubble with the credits of the port as the
  credit update left them; an output that was stamped before, and every output when the
  pass reports that its inputs are not ready, keeps its slot, and the credits of its port
  are as the credit update left them. So credits that are non-negative stay non-negative:
  over every tick of the simulator and over every cycle that \<open>RunCycle\<close> completes.
\<close>

theorem credit_gates_transmission:
  "(\<forall>nc s b nc' s' nc1.
      SimNetworkInterfaceSrc_TryForwardPropagation nc s = Inr (b, nc', s') \<and>
      for_each [0..<length (credit_src nc)] src_update_credit nc = Inr nc1 \<longrightarrow>
      (if valid (phit (forward_channels (connections s' ! sink_connection_index_src nc)))
       then \<exists>v. vc (phit (forward_channels (connections s' ! sink_connection_index_src nc))) =
                  int v \<and>
                0 < credit_src nc1 ! v \<and>
                credit_src nc' = (credit_src nc1)[v := credit_src nc1 ! v - 1]
       else credit_src nc' = credit_src nc1)) \<and>
   (\<forall>outs v i nc s nc' s'.
      router_arbitrate outs v i (nc, s) = Inr (nc', s') \<and> (nc', s') \<noteq> (nc, s) \<longrightarrow>
      (\<exists>dst. GetDestinationPortIndexAndVcIndex (routing s) (id_nc nc) (i, int v)
           (destination_index (hd (queue (input_buffers_router nc ! i ! v)))) = Some dst \<and>
         0 < credit_router nc ! nat (fst dst) ! nat (snd dst) \<and>
         credit_router nc' = (credit_router nc)
           [nat (fst dst) := (credit_router nc ! nat (fst dst))
              [nat (snd dst) := credit_router nc ! nat (fst dst) ! nat (snd dst) - 1]] \<and>
         valid (phit (forward_channels (connections s' ! (outs ! nat (fst dst))))) \<and>
         vc (phit (forward_channels (connections s' ! (outs ! nat (fst dst))))) = snd dst)) \<and>
   (\<forall>nc s b nc' s' nc1 p.
      SimInputBufferedVCRouter_TryForwardPropagation nc s = Inr (b, nc', s') \<and>
      (if internal_propagated_cycle nc \<noteq> GetCurrentCycle s
       then router_update_credits nc else Inr nc) = Inr nc1 \<and>
      distinct (GetConnectionIndicesStore s (output_connection_index_start nc)
                  (output_connection_count nc)) \<and>
      p < length (GetConnectionIndicesStore s (output_connection_index_start nc)
                    (output_connection_count nc)) \<longrightarrow>
      (let oc = GetConnectionIndicesStore s (output_connection_index_start nc)
                  (output_connection_count nc) ! p;
           before = forward_channels (connections s ! oc);
           after = forward_channels (connections s' ! oc)
       in if b \<and> cycle before \<noteq> GetCurrentCycle s
          then cycle after = GetCurrentCycle s \<and>
               (if valid (phit after)
                then \<exists>v. vc (phit after) = int v \<and> v < length (credit_router nc1 ! p) \<and>
                       0 < credit_router nc1 ! p ! v \<and>
                       credit_router nc' ! p =
                         (credit_router nc1 ! p)[v := credit_router nc1 ! p ! v - 1]
                else credit_router nc' ! p = credit_router nc1 ! p)
          else after = before \<and> credit_router nc' ! p = credit_router nc1 ! p)) \<and>
   (\<forall>s b s'. credits_nonnegative s \<and> NocSimulator_Tick s = Inr (b, s') \<longrightarrow>
      credits_nonnegative s') \<and>
   (\<forall>s m st s'. credits_nonnegative s \<and> RunCycle s m = Some (Inr (st, s')) \<longrightarrow>
      credits_nonnegative s')"
proof (intro conjI allI impI; elim conjE)
  fix nc s b nc' s' nc1 p
  assume "SimInputBufferedVCRouter_TryForwardPropagation nc s = Inr (b, nc', s')"
    "(if internal_propagated_cycle nc \<noteq> GetCurrentCycle s
       then router_update_credits nc else Inr nc) = Inr nc1"
    "distinct (GetConnectionIndicesStore s (output_connection_index_start nc)
                  (output_connection_count nc))"
    "p < length (GetConnectionIndicesStore s (output_connection_index_start nc)
                    (output_connection_count nc))"
  then show "let oc = GetConnectionIndicesStore s (output_connection_index_start nc)
                  (output_connection_count nc) ! p;
           before = forward_channels (connections s ! oc);
           after = forward_channels (connections s' ! oc)
       in if b \<and> cycle before \<noteq> GetCurrentCycle s
          then cycle after = GetCurrentCycle s \<and>
               (if valid (phit after)
                then \<exists>v. vc (phit after) = int v \<and> v < length (credit_router nc1 ! p) \<and>
                       0 < credit_router nc1 ! p ! v \<and>
                       credit_router nc' ! p =
                         (credit_router nc1 ! p)[v := credit_router nc1 ! p ! v - 1]
                else credit_router nc' ! p = credit_router nc1 ! p)
          else after = before \<and> credit_router nc' ! p = credit_router nc1 ! p"
    by (rule router_forward_spends_credit)
qed (blast dest: src_forward_spends_credit router_arbitrate_spends_credit
       NocSimulator_Tick_nonnegative RunCycle_nonnegative)+

lemma example_net_src_forward:
  "SimNetworkInterfaceSrc_TryForwardPropagation example_net_src
     (example_net_start\<lparr>cycle_sim := 1\<rparr>) =
   Inr (True,
        example_net_src\<lparr>forward_propagated_cycle := 1, data_to_send := [[]], credit_src := [2]\<rparr>,
        example_net 1
          (example_connection 0 \<lparr>cycle = 1, phit = example_phit\<rparr>
             \<lparr>cycle = 0, phit = \<lparr>valid = True, data = 3\<rparr>\<rparr>)
          example_net_src example_net_sink)"
  by (simp add: tick_defs example_net_defs upt_rec)

lemma example_net_src_credits:
  "for_each [0..<length (credit_src example_net_src)] src_update_credit example_net_src =
     Inr (example_net_src\<lparr>credit_src := [3]\<rparr>)"
  by (simp add: tick_defs example_net_defs upt_rec)

lemma example_forward_pass_wins:
  "SimInputBufferedVCRouter_TryForwardPropagation example_router_loaded
     (example_arriving_sim \<lparr>cycle = 0, phit = example_bubble\<rparr>) =
   Inr (True,
        example_router_won\<lparr>forward_propagated_cycle := 1, internal_propagated_cycle := 1\<rparr>,
        example_arriving_sim \<lparr>cycle = 1, phit = example_phit\<rparr>)"
  by (simp add: router_forward_defs example_loaded_defs upt_rec)

lemma example_router_credits:
  "(if internal_propagated_cycle example_router_loaded \<noteq>
        GetCurrentCycle (example_arriving_sim \<lparr>cycle = 0, phit = example_bubble\<rparr>)
    then router_update_credits example_router_loaded else Inr example_router_loaded) =
   Inr example_router_loaded"
  by (simp add: router_forward_defs example_loaded_defs upt_rec)

theorem credit_gates_transmission_witness:
  "SimNetworkInterfaceSrc_TryForwardPropagation example_net_src
     (example_net_start\<lparr>cycle_sim := 1\<rparr>) =
     Inr (True,
        example_net_src\<lparr>forward_propagated_cycle := 1, data_to_send := [[]], credit_src := [2]\<rparr>,
        example_net 1
          (example_connection 0 \<lparr>cycle = 1, phit = example_phit\<rparr>
             \<lparr>cycle = 0, phit = \<lparr>valid = True, data = 3\<rparr>\<rparr>)
          example_net_src example_net_sink) \<and>
   for_each [0..<length (credit_src example_net_src)] src_update_credit example_net_src =
     Inr (example_net_src\<lparr>credit_src := [3]\<rparr>) \<and>
   (\<exists>v. 0 < credit_src (example_net_src\<lparr>credit_src := [3]\<rparr>) ! v \<and>
      credit_src (example_net_src\<lparr>forward_propagated_cycle := 1, data_to_send := [[]],
                    credit_src := [2]\<rparr>) =
      (credit_src (example_net_src\<lparr>credit_src := [3]\<rparr>))
        [v := credit_src (example_net_src\<lparr>credit_src := [3]\<rparr>) ! v - 1]) \<and>
   router_arbitrate [2] 0 0
     (example_router_loaded, example_arriving_sim \<lparr>cycle = 0, phit = example_bubble\<rparr>) =
     Inr (example_router_won, example_arriving_sim \<lparr>cycle = 1, phit = example_phit\<rparr>) \<and>
   (example_router_won, example_arriving_sim \<lparr>cycle = 1, phit = example_phit\<rparr>) \<noteq>
     (example_router_loaded, example_arriving_sim \<lparr>cycle = 0, phit = example_bubble\<rparr>) \<and>
   (\<exists>dst. 0 < credit_router example_router_loaded ! nat (fst dst) ! nat (snd dst) \<and>
      credit_router example_router_won = (credit_router example_router_loaded)
        [nat (fst dst) := (credit_router example_router_loaded ! nat (fst dst))
           [nat (snd dst) :=
              credit_router example_router_loaded ! nat (fst dst) ! nat (snd dst) - 1]]) \<and>
   SimInputBufferedVCRouter_TryForwardPropagation example_router_loaded
     (example_arriving_sim \<lparr>cycle = 0, phit = example_bubble\<rparr>) =
     Inr (True,
        example_router_won\<lparr>forward_propagated_cycle := 1, internal_propagated_cycle := 1\<rparr>,
        example_arriving_sim \<lparr>cycle = 1, phit = example_phit\<rparr>) \<and>
   distinct (GetConnectionIndicesStore (example_arriving_sim \<lparr>cycle = 0, phit = example_bubble\<rparr>)
      (output_connection_index_start example_router_loaded)
      (output_connection_count example_router_loaded)) \<and>
   valid (phit (forward_channels
      (connections (example_arriving_sim \<lparr>cycle = 1, phit = example_phit\<rparr>) ! 2))) \<and>
   (\<exists>v. vc (phit (forward_channels
           (connections (example_arriving_sim \<lparr>cycle = 1, phit = example_phit\<rparr>) ! 2))) = int v \<and>
      0 < credit_router example_router_loaded ! 0 ! v \<and>
      credit_router (example_router_won\<lparr>forward_propagated_cycle := 1,
                       internal_propagated_cycle := 1\<rparr>) ! 0 =
        (credit_router example_router_loaded ! 0)
          [v := credit_router example_router_loaded ! 0 ! v - 1]) \<and>
   credits_nonnegative example_net_sent \<and>
   NocSimulator_Tick example_net_sent = Inr (True, example_net_converged) \<and>
   credits_nonnegative example_net_start \<and>
   RunCycle example_net_start 10 = Some (Inr (OkStatus, example_net_converged)) \<and>
   credits_nonnegative example_net_converged"
proof -
  have nn: "credits_nonnegative example_net_sent" "credits_nonnegative example_net_start"
    by (simp_all add: credits_nonnegative_def credit_nonnegative_src_def
          credit_nonnegative_router_def example_net_defs)
  have changed: "(example_router_won, example_arriving_sim \<lparr>cycle = 1, phit = example_phit\<rparr>) \<noteq>
     (example_router_loaded, example_arriving_sim \<lparr>cycle = 0, phit = example_bubble\<rparr>)"
    by (simp add: example_loaded_defs)
  have sent: "valid (phit (forward_channels (connections
      (example_net 1
          (example_connection 0 \<lparr>cycle = 1, phit = example_phit\<rparr>
             \<lparr>cycle = 0, phit = \<lparr>valid = True, data = 3\<rparr>\<rparr>)
          example_net_src example_net_sink) ! sink_connection_index_src example_net_src)))"
    by (simp add: example_net_defs)
  from credit_gates_transmission [THEN conjunct1, rule_format, OF conjI,
      OF example_net_src_forward example_net_src_credits]
  have src: "\<exists>v. 0 < credit_src (example_net_src\<lparr>credit_src := [3]\<rparr>) ! v \<and>
      credit_src (example_net_src\<lparr>forward_propagated_cycle := 1, data_to_send := [[]],
                    credit_src := [2]\<rparr>) =
      (credit_src (example_net_src\<lparr>credit_src := [3]\<rparr>))
        [v := credit_src (example_net_src\<lparr>credit_src := [3]\<rparr>) ! v - 1]"
    unfolding if_P [OF sent] by blast
  from credit_gates_transmission [THEN conjunct2, THEN conjunct1, rule_format, OF conjI,
      OF example_first_attempt changed]
  have router: "\<exists>dst. 0 < credit_router example_router_loaded ! nat (fst dst) ! nat (snd dst) \<and>
      credit_router example_router_won = (credit_router example_router_loaded)
        [nat (fst dst) := (credit_router example_router_loaded ! nat (fst dst))
           [nat (snd dst) :=
              credit_router example_router_loaded ! nat (fst dst) ! nat (snd dst) - 1]]"
    by blast
  let ?s = "example_arriving_sim \<lparr>cycle = 0, phit = example_bubble\<rparr>"
  have outs: "GetConnectionIndicesStore ?s (output_connection_index_start example_router_loaded)
      (output_connection_count example_router_loaded) = [2]"
    by (simp add: GetConnectionIndicesStore_def example_loaded_defs)
  have ports: "distinct (GetConnectionIndicesStore ?s
      (output_connection_index_start example_router_loaded)
      (output_connection_count example_router_loaded))"
    "0 < length (GetConnectionIndicesStore ?s
      (output_connection_index_start example_router_loaded)
      (output_connection_count example_router_loaded))"
    by (simp_all add: outs)
  have arrived: "valid (phit (forward_channels
      (connections (example_arriving_sim \<lparr>cycle = 1, phit = example_phit\<rparr>) ! 2)))"
    by (simp add: example_loaded_defs)
  from credit_gates_transmission [THEN conjunct2, THEN conjunct2, THEN conjunct1, rule_format,
      OF conjI [OF example_forward_pass_wins
           conjI [OF example_router_credits conjI [OF ports]]]]
  have pass: "\<exists>v. vc (phit (forward_channels
           (connections (example_arriving_sim \<lparr>cycle = 1, phit = example_phit\<rparr>) ! 2))) = int v \<and>
      0 < credit_router example_router_loaded ! 0 ! v \<and>
      credit_router (example_router_won\<lparr>forward_propagated_cycle := 1,
                       internal_propagated_cycle := 1\<rparr>) ! 0 =
        (credit_router example_router_loaded ! 0)
          [v := credit_router example_router_loaded ! 0 ! v - 1]"
    unfolding outs Let_def
    by (simp add: example_loaded_defs GetCurrentCycle_def)
  from credit_gates_transmission [THEN conjunct2, THEN conjunct2, THEN conjunct2, THEN conjunct1,
      rule_format, OF conjI, OF nn(1) example_net_second_tick]
  have tick: "credits_nonnegative example_net_converged" .
  from credit_gates_transmission [THEN conjunct2, THEN conjunct2, THEN conjunct2, THEN conjunct2,
      rule_format, OF conjI, OF nn(2) example_net_run]
  have cycle: "credits_nonnegative example_net_converged" .
  from example_net_src_forward example_net_src_credits src example_first_attempt changed router
    example_forward_pass_wins ports(1) arrived pass
    nn example_net_second_tick example_net_run cycle
  show ?thesis by (intro conjI)
qed

subsection \<open>A tick after convergence\<close>

lemma base_Tick_converged:
  "converged_at (GetCurrentCycle s) nc \<Longrightarrow>
   SimNetworkComponentBase_Tick f r nc s = Inr (True, nc, s)"
  by (simp add: converged_at_def SimNetworkComponentBase_Tick_def forward_phase_def
        reverse_phase_def)

lemma base_Tick_True_converged:
  assumes run: "SimNetworkComponentBase_Tick f r nc s = Inr (True, nc', s')"
    and r: "\<And>nc s b nc' s'. r nc s = Inr (b, nc', s') \<Longrightarrow>
              forward_propagated_cycle nc' = forward_propagated_cycle nc"
  shows "converged_at (GetCurrentCycle s) nc'"
proof -
  from base_Tick_Inr [OF run] obtain nc1 s1 where
    p: "forward_phase f (GetCurrentCycle s) nc s = Inr (True, nc1, s1)"
       "reverse_phase r (GetCurrentCycle s) nc1 s1 = Inr (True, nc', s')"
    by auto
  from forward_phase_Inr [OF p(1)]
  have "forward_propagated_cycle nc1 = GetCurrentCycle s" by auto
  with reverse_phase_Inr [OF p(2)] r show ?thesis
    by (auto simp: converged_at_def)
qed

lemma src_receive_credit_fpc:
  "src_receive_credit cur s v st = Inr st' \<Longrightarrow>
   forward_propagated_cycle (fst st') = forward_propagated_cycle (fst st)"
  by (cases st, cases st')
     (auto simp: src_receive_credit_def and_then_eq_Inr split: if_splits)

lemma src_reverse_fpc:
  assumes "SimNetworkInterfaceSrc_TryReversePropagation nc s = Inr (b, nc', s')"
  shows "forward_propagated_cycle nc' = forward_propagated_cycle nc"
proof -
  from assms obtain n nc1 k where
    loop: "for_each [0..<n] (src_receive_credit (GetCurrentCycle s) s) (nc, 0) = Inr (nc1, k)"
    and nc': "forward_propagated_cycle nc' = forward_propagated_cycle nc1"
    by (auto simp: SimNetworkInterfaceSrc_TryReversePropagation_def Let_def and_then_eq_Inr
          split: if_splits)
  have "forward_propagated_cycle (fst (nc1, k)) = forward_propagated_cycle nc"
    by (rule for_each_invariant
          [where I = "\<lambda>st. forward_propagated_cycle (fst st) = forward_propagated_cycle nc",
           OF loop])
       (auto dest: src_receive_credit_fpc)
  with nc' show ?thesis by simp
qed

lemma link_reverse_lane_fpc:
  "link_reverse_lane v st = Inr st' \<Longrightarrow>
   forward_propagated_cycle (fst st') = forward_propagated_cycle (fst st)"
  by (cases st, cases st')
     (auto simp: link_reverse_lane_def and_then_eq_Inr split: if_splits prod.splits)

lemma link_reverse_fpc:
  assumes "SimLink_TryReversePropagation nc s = Inr (b, nc', s')"
  shows "forward_propagated_cycle nc' = forward_propagated_cycle nc"
proof -
  from assms obtain n nc1 s1 k where
    loop: "for_each [0..<n] link_reverse_lane (nc, s, 0) = Inr (nc1, s1, k)"
    and nc': "forward_propagated_cycle nc' = forward_propagated_cycle nc1"
    by (auto simp: SimLink_TryReversePropagation_def Let_def and_then_eq_Inr split: if_splits)
  have "forward_propagated_cycle (fst (nc1, s1, k)) = forward_propagated_cycle nc"
    by (rule for_each_invariant
          [where I = "\<lambda>st. forward_propagated_cycle (fst st) = forward_propagated_cycle nc",
           OF loop])
       (auto dest: link_reverse_lane_fpc)
  with nc' show ?thesis by simp
qed

lemma src_Tick_True_converged:
  "SimNetworkInterfaceSrc_Tick nc s = Inr (True, nc', s') \<Longrightarrow>
   converged_at (GetCurrentCycle s) nc'"
  unfolding SimNetworkInterfaceSrc_Tick_def
  by (erule base_Tick_True_converged) (rule src_reverse_fpc)

lemma link_Tick_True_converged:
  "SimLink_Tick nc s = Inr (True, nc', s') \<Longrightarrow> converged_at (GetCurrentCycle s) nc'"
  unfolding SimLink_Tick_def
  by (erule base_Tick_True_converged) (rule link_reverse_fpc)

lemma router_Tick_True_converged:
  "SimInputBufferedVCRouter_Tick nc s = Inr (True, nc', s') \<Longrightarrow>
   converged_at (GetCurrentCycle s) nc'"
  unfolding SimInputBufferedVCRouter_Tick_def
  by (erule base_Tick_True_converged) (auto dest: router_reverse_credit)

lemma sink_Tick_True_converged:
  "SimNetworkInterfaceSink_Tick nc s = Inr (True, nc', s') \<Longrightarrow>
   converged_at (GetCurrentCycle s) nc'"
  unfolding SimNetworkInterfaceSink_Tick_def
  by (erule base_Tick_True_converged)
     (auto simp: SimNetworkInterfaceSink_TryReversePropagation_def)

lemma tick_each_True:
  assumes conv: "\<And>nc s nc' s'. tick nc s = Inr (True, nc', s') \<Longrightarrow>
                   converged_at (GetCurrentCycle s) nc'"
    and fr: "\<And>nc s b nc' s'. tick nc s = Inr (b, nc', s') \<Longrightarrow> frame s s'"
  shows "tick_each tick ncs c s = Inr (True, ncs', s') \<Longrightarrow>
         c \<and> list_all (converged_at (GetCurrentCycle s)) ncs'"
proof (induction ncs arbitrary: c s ncs')
  case Nil
  then show ?case by simp
next
  case (Cons nc ncs)
  from Cons.prems obtain b nc1 s1 ncs1 where
    t: "tick nc s = Inr (b, nc1, s1)" "tick_each tick ncs (c \<and> b) s1 = Inr (True, ncs1, s')"
      "ncs' = nc1 # ncs1"
    unfolding tick_each_Cons_Inr by blast
  from fr [OF t(1)] have cur: "GetCurrentCycle s1 = GetCurrentCycle s"
    by (simp add: frame_fields)
  from Cons.IH [OF t(2)] cur
  have rest: "c \<and> b" "list_all (converged_at (GetCurrentCycle s)) ncs1"
    by simp_all
  with t(1) conv [of nc s nc1 s1] t(3) show ?case by simp
qed

lemma tick_each_converged:
  assumes "\<And>nc s. converged_at (GetCurrentCycle s) nc \<Longrightarrow> tick nc s = Inr (True, nc, s)"
  shows "list_all (converged_at (GetCurrentCycle s)) ncs \<Longrightarrow>
         tick_each tick ncs c s = Inr (c, ncs, s)"
  by (induction ncs arbitrary: c) (simp_all add: assms)

lemma NocSimulator_Tick_True_converged:
  assumes "NocSimulator_Tick s = Inr (True, s')"
  shows "list_all (converged_at (cycle_sim s')) (network_interface_sources s') \<and>
         list_all (converged_at (cycle_sim s')) (links s') \<and>
         list_all (converged_at (cycle_sim s')) (routers s') \<and>
         list_all (converged_at (cycle_sim s')) (network_interface_sinks s')"
proof -
  from assms obtain c1 ncs1 t1 c2 ncs2 t2 c3 ncs3 t3 ncs4 t4 where
    t: "tick_each SimNetworkInterfaceSrc_Tick (network_interface_sources s) True s =
       Inr (c1, ncs1, t1)"
    "tick_each SimLink_Tick (links s) c1 (t1\<lparr>network_interface_sources := ncs1\<rparr>) =
       Inr (c2, ncs2, t2)"
    "tick_each SimInputBufferedVCRouter_Tick (routers s) c2 (t2\<lparr>links := ncs2\<rparr>) =
       Inr (c3, ncs3, t3)"
    "tick_each SimNetworkInterfaceSink_Tick (network_interface_sinks s) c3 (t3\<lparr>routers := ncs3\<rparr>) =
       Inr (True, ncs4, t4)"
    and f: "frame s t1" "frame (t1\<lparr>network_interface_sources := ncs1\<rparr>) t2"
    "frame (t2\<lparr>links := ncs2\<rparr>) t3" "frame (t3\<lparr>routers := ncs3\<rparr>) t4"
    and s': "s' = t4\<lparr>network_interface_sinks := ncs4\<rparr>"
    by (rule NocSimulator_Tick_Inr)
  note ff = frame_fields [OF f(1)] frame_fields [OF f(2)] frame_fields [OF f(3)]
    frame_fields [OF f(4)]
  from tick_each_True [where tick = SimNetworkInterfaceSink_Tick,
      OF sink_Tick_True_converged sink_Tick_frame t(4)]
  have d: "c3" "list_all (converged_at (cycle_sim s)) ncs4"
    using ff by (simp_all add: GetCurrentCycle_def)
  from t(3) d(1) have t3: "tick_each SimInputBufferedVCRouter_Tick (routers s) c2
      (t2\<lparr>links := ncs2\<rparr>) = Inr (True, ncs3, t3)"
    by simp
  from tick_each_True [where tick = SimInputBufferedVCRouter_Tick,
      OF router_Tick_True_converged router_Tick_frame t3]
  have c: "c2" "list_all (converged_at (cycle_sim s)) ncs3"
    using ff by (simp_all add: GetCurrentCycle_def)
  from t(2) c(1) have t2: "tick_each SimLink_Tick (links s) c1
      (t1\<lparr>network_interface_sources := ncs1\<rparr>) = Inr (True, ncs2, t2)"
    by simp
  from tick_each_True [where tick = SimLink_Tick,
      OF link_Tick_True_converged link_Tick_frame t2]
  have b: "c1" "list_all (converged_at (cycle_sim s)) ncs2"
    using ff by (simp_all add: GetCurrentCycle_def)
  from t(1) b(1) have t1: "tick_each SimNetworkInterfaceSrc_Tick (network_interface_sources s)
      True s = Inr (True, ncs1, t1)"
    by simp
  from tick_each_True [where tick = SimNetworkInterfaceSrc_Tick,
      OF src_Tick_True_converged src_Tick_frame t1]
  have a: "list_all (converged_at (cycle_sim s)) ncs1"
    by (simp add: GetCurrentCycle_def)
  from a b(2) c(2) d(2) ff show ?thesis
    by (simp add: s')
qed

lemma NocSimulator_Tick_converged:
  assumes "list_all (converged_at (cycle_sim s)) (network_interface_sources s)"
    "list_all (converged_at (cycle_sim s)) (links s)"
    "list_all (converged_at (cycle_sim s)) (routers s)"
    "list_all (converged_at (cycle_sim s)) (network_interface_sinks s)"
  shows "NocSimulator_Tick s = Inr (True, s)"
proof -
  have a: "tick_each SimNetworkInterfaceSrc_Tick (network_interface_sources s) c s =
      Inr (c, network_interface_sources s, s)" for c
    by (rule tick_each_converged)
       (use assms in \<open>simp_all add: SimNetworkInterfaceSrc_Tick_def base_Tick_converged
          GetCurrentCycle_def\<close>)
  have b: "tick_each SimLink_Tick (links s) c s = Inr (c, links s, s)" for c
    by (rule tick_each_converged)
       (use assms in \<open>simp_all add: SimLink_Tick_def base_Tick_converged GetCurrentCycle_def\<close>)
  have c: "tick_each SimInputBufferedVCRouter_Tick (routers s) c s = Inr (c, routers s, s)" for c
    by (rule tick_each_converged)
       (use assms in \<open>simp_all add: SimInputBufferedVCRouter_Tick_def base_Tick_converged
          GetCurrentCycle_def\<close>)
  have d: "tick_each SimNetworkInterfaceSink_Tick (network_interface_sinks s) c s =
      Inr (c, network_interface_sinks s, s)" for c
    by (rule tick_each_converged)
       (use assms in \<open>simp_all add: SimNetworkInterfaceSink_Tick_def base_Tick_converged
          GetCurrentCycle_def\<close>)
  show ?thesis
    by (simp add: NocSimulator_Tick_def a b c d)
qed

text \<open>
  Claim C8. Once a tick has reported convergence, the next tick of the same cycle returns
  true and the simulator it returns is the simulator it was given: every connection and
  every component, with its buffers and credit counters, is unchanged.
\<close>

theorem tick_after_convergence_is_noop:
  "NocSimulator_Tick s = Inr (True, s') \<Longrightarrow> NocSimulator_Tick s' = Inr (True, s')"
  by (drule NocSimulator_Tick_True_converged) (simp add: NocSimulator_Tick_converged)

theorem tick_after_convergence_is_noop_witness:
  "NocSimulator_Tick example_net_sent = Inr (True, example_net_converged) \<and>
   NocSimulator_Tick example_net_converged = Inr (True, example_net_converged)"
  using tick_after_convergence_is_noop [OF example_net_second_tick] example_net_second_tick
  by simp

subsection \<open>The tick loop of RunCycle\<close>

lemma run_ticks_stuck:
  assumes stuck: "NocSimulator_Tick s = Inr (False, s)"
  shows "run_ticks s n = None"
proof (cases "run_ticks s n")
  case None
  then show ?thesis .
next
  case (Some y)
  have "s' \<noteq> s" if "run_ticks s' m = Some z" for s' m z
  proof (rule run_ticks.raw_induct [where P = "\<lambda>s' m z. s' \<noteq> s", rotated, OF that])
    fix f :: "NocSimulator \<Rightarrow> int \<Rightarrow> (NocSimulator \<times> int) outcome option" and s' m z
    assume IH: "\<And>s' m z. f s' m = Some z \<Longrightarrow> s' \<noteq> s"
      and body: "(case NocSimulator_Tick s' of Inl e \<Rightarrow> Some (Inl e)
          | Inr (converged, sim1) \<Rightarrow>
              if converged then Some (Inr (sim1, m + 1)) else f sim1 (m + 1)) = Some z"
    show "s' \<noteq> s"
    proof
      assume "s' = s"
      with body stuck have "f s (m + 1) = Some z" by simp
      from IH [OF this] show False by simp
    qed
  qed
  from this [OF Some] show ?thesis by simp
qed

lemmas ring_defs =
  ring_router_def ring_sim_def example_connection_def example_bubble_def example_routes_def

lemmas router_tick_defs =
  NocSimulator_Tick_def SimInputBufferedVCRouter_Tick_def SimNetworkComponentBase_Tick_def
  forward_phase_def reverse_phase_def SimInputBufferedVCRouter_TryReversePropagation_def
  router_forward_defs

lemma ring_first_tick:
  "NocSimulator_Tick ((ring_sim 0)\<lparr>cycle_sim := cycle_sim (ring_sim 0) + 1\<rparr>) =
     Inr (False,
          (ring_sim 0)\<lparr>cycle_sim := 1, routers := [ring_router 1 0 1, ring_router 2 2 1]\<rparr>)"
  by (simp add: router_tick_defs ring_defs upt_rec)

lemma ring_later_tick:
  "NocSimulator_Tick
     ((ring_sim 0)\<lparr>cycle_sim := 1, routers := [ring_router 1 0 1, ring_router 2 2 1]\<rparr>) =
     Inr (False,
          (ring_sim 0)\<lparr>cycle_sim := 1, routers := [ring_router 1 0 1, ring_router 2 2 1]\<rparr>)"
  by (simp add: router_tick_defs ring_defs upt_rec)

text \<open>
  Claim C1 fails on the code. Two routers wired in a ring, as the simulator creates them:
  each waits for the other's output to carry the current cycle, no tick changes anything
  after the first, and the \<^verbatim>\<open>while\<close> loop of \<open>RunCycle\<close>, which \<^verbatim>\<open>max_ticks\<close> does not
  bound, never ends. And where the ticks do converge, on the source and sink of
  \<open>example_net_start\<close> after 2 ticks, a bound of 2 that the tick count does not exceed
  still yields the error, because the comparison is \<^verbatim>\<open>nticks >= max_ticks\<close>.
\<close>

theorem run_cycle_loops_on_ring:
  "RunCycle (ring_sim 0) 10 = None \<and>
   RunCycle example_net_start 2 = Some (Inr (InternalError 2 1, example_net_converged))"
proof
  have "run_ticks ((ring_sim 0)\<lparr>cycle_sim := cycle_sim (ring_sim 0) + 1\<rparr>) 0 =
      run_ticks ((ring_sim 0)\<lparr>cycle_sim := 1,
        routers := [ring_router 1 0 1, ring_router 2 2 1]\<rparr>) 1"
    by (subst run_ticks.simps) (simp add: ring_first_tick)
  also have "\<dots> = None"
    by (rule run_ticks_stuck) (rule ring_later_tick)
  finally show "RunCycle (ring_sim 0) 10 = None"
    by (simp add: RunCycle_def)
next
  show "RunCycle example_net_start 2 = Some (Inr (InternalError 2 1, example_net_converged))"
    by (simp add: RunCycle_def run_ticks.simps [of "example_net_start\<lparr>cycle_sim := _\<rparr>"]
          run_ticks.simps [of example_net_sent]
          example_net_first_tick example_net_second_tick)
       (simp add: example_net_defs)
qed

subsection \<open>A failed route lookup\<close>

lemma for_each_reaches_invariant:
  assumes keep: "\<And>w t t'. w \<noteq> v \<Longrightarrow> I t \<Longrightarrow> body w t = Inr t' \<Longrightarrow> I t'"
  shows "for_each vs body s = Inr s' \<Longrightarrow> v \<in> set vs \<Longrightarrow> I s \<Longrightarrow>
         \<exists>t t'. I t \<and> body v t = Inr t'"
proof (induction vs arbitrary: s)
  case Nil
  then show ?case by simp
next
  case (Cons w ws)
  from Cons.prems(1) obtain t where t: "body w s = Inr t" "for_each ws body t = Inr s'"
    unfolding for_each_Cons_Inr by blast
  show ?case
  proof (cases "w = v")
    case True
    with t(1) Cons.prems(3) show ?thesis by blast
  next
    case False
    from keep [OF False Cons.prems(3) t(1)] have "I t" .
    with Cons.IH [OF t(2)] Cons.prems(2) False show ?thesis by auto
  qed
qed

lemma router_arbitrate_check_fails:
  assumes "i < length (input_buffers_router nc)" "v < length (input_buffers_router nc ! i)"
    and "queue (input_buffers_router nc ! i ! v) \<noteq> []"
    and "GetDestinationPortIndexAndVcIndex (routing s) (id_nc nc) (i, int v)
           (destination_index (hd (queue (input_buffers_router nc ! i ! v)))) = None"
  shows "router_arbitrate outs v i (nc, s) = Inl CheckFailure"
  using assms by (simp add: router_arbitrate_def vec_index_def)

lemma router_arbitrate_other_cell:
  assumes run: "router_arbitrate outs w x st = Inr st'"
    and other: "w \<noteq> v \<or> x \<noteq> i"
    and inv: "cell_untouched nc s v i st"
  shows "cell_untouched nc s v i st'"
proof -
  from run have run': "router_arbitrate outs w x (fst st, snd st) = Inr (fst st', snd st')"
    by simp
  from router_arbitrate_cases [OF run'] other inv show ?thesis
    unfolding cell_untouched_def put_connection_def
    by (elim disjE exE conjE) (auto simp: nth_list_update)
qed

lemma router_arbitration_needs_routes:
  assumes run: "for_each vs
       (\<lambda>v st. for_each [0..<length (input_buffers_router (fst st))] (router_arbitrate outs v) st)
       (nc, s) = Inr r"
    and v: "v \<in> set vs"
    and i: "i < length (input_buffers_router nc)" "v < length (input_buffers_router nc ! i)"
    and q: "queue (input_buffers_router nc ! i ! v) \<noteq> []"
  shows "GetDestinationPortIndexAndVcIndex (routing s) (id_nc nc) (i, int v)
           (destination_index (hd (queue (input_buffers_router nc ! i ! v)))) \<noteq> None"
proof
  assume none: "GetDestinationPortIndexAndVcIndex (routing s) (id_nc nc) (i, int v)
           (destination_index (hd (queue (input_buffers_router nc ! i ! v)))) = None"
  let ?I = "cell_untouched nc s v i"
  have start: "?I (nc, s)" by (simp add: cell_untouched_def)
  have outer: "\<exists>t t'. ?I t \<and>
      for_each [0..<length (input_buffers_router (fst t))] (router_arbitrate outs v) t = Inr t'"
  proof (rule for_each_reaches_invariant [where I = ?I, OF _ run v start])
    fix w t t'
    assume w: "w \<noteq> v" and t: "?I t"
      and inner: "for_each [0..<length (input_buffers_router (fst t))]
                    (router_arbitrate outs w) t = Inr t'"
    show "?I t'"
      by (rule for_each_invariant [where I = ?I, OF inner t])
         (use w in \<open>auto intro: router_arbitrate_other_cell\<close>)
  qed
  then obtain t t' where t: "?I t"
    and inner: "for_each [0..<length (input_buffers_router (fst t))]
                  (router_arbitrate outs v) t = Inr t'"
    by blast
  from t i have mem: "i \<in> set [0..<length (input_buffers_router (fst t))]"
    by (simp add: cell_untouched_def)
  have "\<exists>u u'. ?I u \<and> router_arbitrate outs v i u = Inr u'"
    by (rule for_each_reaches_invariant [where I = ?I, OF _ inner mem t])
       (auto intro: router_arbitrate_other_cell)
  then obtain u u' where u: "?I u" and att: "router_arbitrate outs v i u = Inr u'"
    by blast
  from u i q none
  have "router_arbitrate outs v i (fst u, snd u) = Inl CheckFailure"
    by (intro router_arbitrate_check_fails) (simp_all add: cell_untouched_def)
  with att show False by simp
qed

lemma run_ticks_fault:
  "NocSimulator_Tick s = Inl e \<Longrightarrow> run_ticks s n = Some (Inl e)"
  by (subst run_ticks.simps) simp

lemma RunCycle_fault:
  "NocSimulator_Tick (s\<lparr>cycle_sim := cycle_sim s + 1\<rparr>) = Inl e \<Longrightarrow>
   RunCycle s m = Some (Inl e)"
  by (simp add: RunCycle_def run_ticks_fault)

lemma router_Tick_fault:
  "SimInputBufferedVCRouter_TryForwardPropagation nc s = Inl e \<Longrightarrow>
   forward_propagated_cycle nc \<noteq> GetCurrentCycle s \<Longrightarrow>
   SimInputBufferedVCRouter_Tick nc s = Inl e"
  by (simp add: SimInputBufferedVCRouter_Tick_def SimNetworkComponentBase_Tick_def
        forward_phase_def)

lemma run_ticks_again:
  "NocSimulator_Tick s = Inr (False, s1) \<Longrightarrow> run_ticks s n = run_ticks s1 (n + 1)"
  by (subst run_ticks.simps) simp

lemma RunCycle_fault_later:
  "run_ticks (s\<lparr>cycle_sim := cycle_sim s + 1\<rparr>) 0 = Some (Inl e) \<Longrightarrow>
   RunCycle s m = Some (Inl e)"
  by (simp add: RunCycle_def)

lemma buffers_shaped_refl [simp]: "buffers_shaped nc nc"
  by (simp add: buffers_shaped_def)

lemma buffers_shaped_trans:
  "buffers_shaped a b \<Longrightarrow> buffers_shaped b c \<Longrightarrow> buffers_shaped a c"
  by (simp add: buffers_shaped_def)

lemma router_ingest_cell:
  assumes run: "router_ingest ins s w nc = Inr nc'"
  shows "buffers_shaped nc nc' \<and>
    (\<forall>i v. i < length (input_buffers_router nc) \<longrightarrow> v < length (input_buffers_router nc ! i) \<longrightarrow>
       queue (input_buffers_router nc' ! i ! v) =
         queue (input_buffers_router nc ! i ! v) @
         (if w = i \<and> valid (phit (forward_channels (connections s ! (ins ! w)))) \<and>
             vc (phit (forward_channels (connections s ! (ins ! w)))) = int v
          then [phit (forward_channels (connections s ! (ins ! w)))] else []))"
proof (cases "valid (phit (forward_channels (connections s ! (ins ! w))))")
  case False
  with run have "nc' = nc"
    by (auto simp: router_ingest_def and_then_eq_Inr)
  with False show ?thesis by simp
next
  case True
  let ?p = "phit (forward_channels (connections s ! (ins ! w)))"
  let ?row = "input_buffers_router nc ! w"
  from run True have w: "w < length (input_buffers_router nc)"
    and z: "0 \<le> vc ?p" "nat (vc ?p) < length ?row"
    and nc': "nc' = nc\<lparr>input_buffers_router := (input_buffers_router nc)
                  [w := ?row[nat (vc ?p) :=
                         (?row ! nat (vc ?p))\<lparr>queue := queue (?row ! nat (vc ?p)) @ [?p]\<rparr>]]\<rparr>"
    by (auto simp: router_ingest_def and_then_eq_Inr vec_index_int_def split: if_splits)
  have shaped: "buffers_shaped nc nc'"
    unfolding buffers_shaped_def nc'
    using w by (auto simp: nth_list_update)
  have "queue (input_buffers_router nc' ! i ! v) =
         queue (input_buffers_router nc ! i ! v) @
         (if w = i \<and> valid ?p \<and> vc ?p = int v then [?p] else [])"
    if i: "i < length (input_buffers_router nc)" and v: "v < length (input_buffers_router nc ! i)"
    for i v
  proof (cases "w = i \<and> nat (vc ?p) = v")
    case True
    with z have "vc ?p = int v" by auto
    with True \<open>valid ?p\<close> i v show ?thesis by (simp add: nc')
  next
    case False
    with z have neq: "\<not> (w = i \<and> vc ?p = int v)" by auto
    show ?thesis
    proof (cases "w = i")
      case True
      with False neq i v w show ?thesis by (simp add: nc')
    next
      case other: False
      with i v show ?thesis by (simp add: nc')
    qed
  qed
  with shaped show ?thesis by blast
qed

lemma router_ingest_cells:
  "for_each ws (router_ingest ins s) nc = Inr nc' \<Longrightarrow> distinct ws \<Longrightarrow>
   buffers_shaped nc nc' \<and>
    (\<forall>i v. i < length (input_buffers_router nc) \<longrightarrow> v < length (input_buffers_router nc ! i) \<longrightarrow>
       queue (input_buffers_router nc' ! i ! v) =
         queue (input_buffers_router nc ! i ! v) @
         (if i \<in> set ws \<and> valid (phit (forward_channels (connections s ! (ins ! i)))) \<and>
             vc (phit (forward_channels (connections s ! (ins ! i)))) = int v
          then [phit (forward_channels (connections s ! (ins ! i)))] else []))"
proof (induction ws arbitrary: nc)
  case Nil
  then show ?case by simp
next
  case (Cons w ws)
  from Cons.prems(1) obtain nc1 where
    one: "router_ingest ins s w nc = Inr nc1" and rest: "for_each ws (router_ingest ins s) nc1 = Inr nc'"
    unfolding for_each_Cons_Inr by blast
  from Cons.prems(2) have d: "distinct ws" "w \<notin> set ws" by simp_all
  note a = router_ingest_cell [OF one]
  note b = Cons.IH [OF rest d(1)]
  from a b have shaped: "buffers_shaped nc nc'" by (blast intro: buffers_shaped_trans)
  have "queue (input_buffers_router nc' ! i ! v) =
         queue (input_buffers_router nc ! i ! v) @
         (if i \<in> set (w # ws) \<and> valid (phit (forward_channels (connections s ! (ins ! i)))) \<and>
             vc (phit (forward_channels (connections s ! (ins ! i)))) = int v
          then [phit (forward_channels (connections s ! (ins ! i)))] else [])"
    if i: "i < length (input_buffers_router nc)" and v: "v < length (input_buffers_router nc ! i)"
    for i v
  proof -
    from a i v have i1: "i < length (input_buffers_router nc1)"
      "v < length (input_buffers_router nc1 ! i)"
      by (simp_all add: buffers_shaped_def)
    from a i v have q1: "queue (input_buffers_router nc1 ! i ! v) =
         queue (input_buffers_router nc ! i ! v) @
         (if w = i \<and> valid (phit (forward_channels (connections s ! (ins ! w)))) \<and>
             vc (phit (forward_channels (connections s ! (ins ! w)))) = int v
          then [phit (forward_channels (connections s ! (ins ! w)))] else [])"
      by blast
    from b i1 have q2: "queue (input_buffers_router nc' ! i ! v) =
         queue (input_buffers_router nc1 ! i ! v) @
         (if i \<in> set ws \<and> valid (phit (forward_channels (connections s ! (ins ! i)))) \<and>
             vc (phit (forward_channels (connections s ! (ins ! i)))) = int v
          then [phit (forward_channels (connections s ! (ins ! i)))] else [])"
      by blast
    from d(2) show ?thesis unfolding q2 q1 by auto
  qed
  with shaped show ?case by blast
qed

lemma router_update_credits_buffers:
  assumes run: "router_update_credits nc = Inr nc'"
  shows "input_buffers_router nc' = input_buffers_router nc \<and> id_nc nc' = id_nc nc \<and>
         max_vc nc' = max_vc nc \<and> input_connection_count nc' = input_connection_count nc \<and>
         forward_propagated_cycle nc' = forward_propagated_cycle nc \<and>
         reverse_propagated_cycle nc' = reverse_propagated_cycle nc"
proof -
  let ?I = "\<lambda>m. input_buffers_router m = input_buffers_router nc \<and> id_nc m = id_nc nc \<and>
         max_vc m = max_vc nc \<and> input_connection_count m = input_connection_count nc \<and>
         forward_propagated_cycle m = forward_propagated_cycle nc \<and>
         reverse_propagated_cycle m = reverse_propagated_cycle nc"
  from run have loop: "for_each [0..<length (credit_update_router nc)]
       (\<lambda>i nc1. for_each [0..<length (credit_update_router nc1 ! i)] (router_update_credit i) nc1)
       nc = Inr nc'"
    by (simp add: router_update_credits_def)
  show ?thesis
  proof (rule for_each_invariant [where I = ?I, OF loop])
    show "?I nc" by simp
  next
    fix w t t'
    assume t: "?I t"
      "for_each [0..<length (credit_update_router t ! w)] (router_update_credit w) t = Inr t'"
    show "?I t'"
      by (rule for_each_invariant [where I = ?I, OF t(2) t(1)])
         (auto simp: router_update_credit_def and_then_eq_Inr split: if_splits)
  qed
qed

lemma router_forward_not_ready:
  assumes run: "SimInputBufferedVCRouter_TryForwardPropagation nc s = Inr (False, nc', s')"
  shows "s' = s \<and> input_buffers_router nc' = input_buffers_router nc \<and> id_nc nc' = id_nc nc \<and>
         max_vc nc' = max_vc nc \<and>
         forward_propagated_cycle nc' = forward_propagated_cycle nc \<and>
         reverse_propagated_cycle nc' = reverse_propagated_cycle nc"
proof -
  from run obtain nc0 where
    upd0: "(if internal_propagated_cycle nc \<noteq> GetCurrentCycle s then
             and_then (router_update_credits nc) (\<lambda>nc1.
               Inr (nc1\<lparr>internal_propagated_cycle := GetCurrentCycle s\<rparr>))
           else Inr nc) = Inr nc0"
    by (auto simp: SimInputBufferedVCRouter_TryForwardPropagation_def Let_def and_then_eq_Inr)
  with run have eq: "nc' = nc0" "s' = s"
    by (auto simp: SimInputBufferedVCRouter_TryForwardPropagation_def Let_def and_then_eq_Inr
          split: if_splits)
  from upd0 have "input_buffers_router nc0 = input_buffers_router nc \<and> id_nc nc0 = id_nc nc \<and>
         max_vc nc0 = max_vc nc \<and>
         forward_propagated_cycle nc0 = forward_propagated_cycle nc \<and>
         reverse_propagated_cycle nc0 = reverse_propagated_cycle nc"
    by (auto simp: and_then_eq_Inr split: if_splits dest!: router_update_credits_buffers)
  with eq show ?thesis by simp
qed

lemma router_forward_unroutable:
  assumes run: "SimInputBufferedVCRouter_TryForwardPropagation nc s = Inr (b, nc', s')"
    and bad: "unroutable_head s nc i v (arbitration_queue s nc i v)"
  shows "\<not> b"
proof
  assume b
  let ?cur = "GetCurrentCycle s"
  let ?ins = "GetConnectionIndicesStore s (input_connection_index_start nc)
                (input_connection_count nc)"
  from run obtain nc0 where
    upd0: "(if internal_propagated_cycle nc \<noteq> ?cur then
             and_then (router_update_credits nc) (\<lambda>nc1.
               Inr (nc1\<lparr>internal_propagated_cycle := ?cur\<rparr>))
           else Inr nc) = Inr nc0"
    by (auto simp: SimInputBufferedVCRouter_TryForwardPropagation_def Let_def and_then_eq_Inr)
  from upd0 have k0: "input_buffers_router nc0 = input_buffers_router nc" "id_nc nc0 = id_nc nc"
    "max_vc nc0 = max_vc nc" "input_connection_count nc0 = input_connection_count nc"
    by (auto simp: and_then_eq_Inr split: if_splits dest!: router_update_credits_buffers)
  from run upd0 \<open>b\<close> obtain nc2 nc3 nc4 s4 outs where
    reset: "for_each [0..<input_connection_count nc0] router_reset_credit_to_send nc0 = Inr nc2"
    and ingest: "for_each [0..<input_connection_count nc2] (router_ingest ?ins s) nc2 = Inr nc3"
    and arb: "for_each [0..<max_vc nc3]
            (\<lambda>v st. for_each [0..<length (input_buffers_router (fst st))]
                       (router_arbitrate outs v) st) (nc3, s) = Inr (nc4, s4)"
    by (auto simp: SimInputBufferedVCRouter_TryForwardPropagation_def Let_def and_then_eq_Inr
          split: if_splits)
  let ?K = "\<lambda>m. input_buffers_router m = input_buffers_router nc0 \<and> id_nc m = id_nc nc0 \<and>
         max_vc m = max_vc nc0 \<and> input_connection_count m = input_connection_count nc0"
  have k2: "?K nc2"
    by (rule for_each_invariant [where I = ?K, OF reset])
       (auto simp: router_reset_credit_to_send_def and_then_eq_Inr)
  note cells = router_ingest_cells [OF ingest distinct_upt]
  from bad have i: "i < length (input_buffers_router nc)"
    and v: "v < length (input_buffers_router nc ! i)" "v < max_vc nc"
    and q: "arbitration_queue s nc i v \<noteq> []"
    and none: "GetDestinationPortIndexAndVcIndex (routing s) (id_nc nc) (i, int v)
        (destination_index (hd (arbitration_queue s nc i v))) = None"
    by (simp_all add: unroutable_head_def)
  from cells k2 k0 i v have q3: "queue (input_buffers_router nc3 ! i ! v) = arbitration_queue s nc i v"
    by (simp add: arbitration_queue_def Let_def conj_commute)
  from cells k2 k0 have shape: "id_nc nc3 = id_nc nc" "max_vc nc3 = max_vc nc"
    "length (input_buffers_router nc3) = length (input_buffers_router nc)"
    "length (input_buffers_router nc3 ! i) = length (input_buffers_router nc ! i)"
    by (simp_all add: buffers_shaped_def)
  have "GetDestinationPortIndexAndVcIndex (routing s) (id_nc nc3) (i, int v)
           (destination_index (hd (queue (input_buffers_router nc3 ! i ! v)))) \<noteq> None"
    by (rule router_arbitration_needs_routes [OF arb]) (use i v q shape q3 in simp_all)
  with none show False by (simp add: shape q3)
qed

lemma router_inputs_ready_forward:
  assumes run: "SimInputBufferedVCRouter_TryForwardPropagation nc s = Inr (b, nc', s')"
    and ready: "router_inputs_ready [0..<input_connection_count nc]
        (GetConnectionIndicesStore s (input_connection_index_start nc)
           (input_connection_count nc)) s = Inr True"
  shows b
proof -
  from run obtain nc0 where
    upd0: "(if internal_propagated_cycle nc \<noteq> GetCurrentCycle s then
             and_then (router_update_credits nc) (\<lambda>nc1.
               Inr (nc1\<lparr>internal_propagated_cycle := GetCurrentCycle s\<rparr>))
           else Inr nc) = Inr nc0"
    by (auto simp: SimInputBufferedVCRouter_TryForwardPropagation_def Let_def and_then_eq_Inr)
  from upd0 have "input_connection_count nc0 = input_connection_count nc"
    by (auto simp: and_then_eq_Inr split: if_splits dest!: router_update_credits_buffers)
  note count = this
  show ?thesis
  proof (rule ccontr)
    assume "\<not> b"
    with run upd0 have "router_inputs_ready [0..<input_connection_count nc0]
        (GetConnectionIndicesStore s (input_connection_index_start nc)
           (input_connection_count nc)) s = Inr False"
      by (auto simp: SimInputBufferedVCRouter_TryForwardPropagation_def Let_def and_then_eq_Inr
            split: if_splits)
    with ready count show False by simp
  qed
qed

lemma router_forward_aborts:
  assumes bad: "unroutable_head s nc i v (arbitration_queue s nc i v)"
    and ready: "router_inputs_ready [0..<input_connection_count nc]
        (GetConnectionIndicesStore s (input_connection_index_start nc)
           (input_connection_count nc)) s = Inr True"
  shows "\<exists>e. SimInputBufferedVCRouter_TryForwardPropagation nc s = Inl e"
proof (cases "SimInputBufferedVCRouter_TryForwardPropagation nc s")
  case (Inl e)
  then show ?thesis by blast
next
  case (Inr r)
  obtain b nc' s' where r: "r = (b, nc', s')" by (cases r)
  from Inr r router_forward_unroutable [OF _ bad] router_inputs_ready_forward [OF _ ready]
  show ?thesis by blast
qed

lemma unroutable_buffered:
  assumes "unroutable_head s nc i v (queue (input_buffers_router nc ! i ! v))"
  shows "unroutable_head s nc i v (arbitration_queue s nc i v)"
  using assms by (simp add: unroutable_head_def arbitration_queue_def Let_def)

lemma router_Tick_blocked:
  assumes run: "SimInputBufferedVCRouter_Tick nc t = Inr (b, nc', t')"
    and mark: "forward_propagated_cycle nc \<noteq> GetCurrentCycle t"
    and bad: "unroutable_head t nc i v (queue (input_buffers_router nc ! i ! v))"
  shows "\<not> b \<and> forward_propagated_cycle nc' \<noteq> GetCurrentCycle t \<and>
         input_buffers_router nc' = input_buffers_router nc \<and> id_nc nc' = id_nc nc \<and>
         max_vc nc' = max_vc nc"
proof -
  let ?cur = "GetCurrentCycle t"
  from base_Tick_Inr [OF run [unfolded SimInputBufferedVCRouter_Tick_def]]
  obtain b1 nc1 s1 b2 where
    fwd: "forward_phase SimInputBufferedVCRouter_TryForwardPropagation ?cur nc t =
            Inr (b1, nc1, s1)"
    and rev: "reverse_phase SimInputBufferedVCRouter_TryReversePropagation ?cur nc1 s1 =
            Inr (b2, nc', t')"
    and b: "b = (b1 \<and> b2)"
    by blast
  from forward_phase_Inr [OF fwd] mark obtain nc0 where
    f: "SimInputBufferedVCRouter_TryForwardPropagation nc t = Inr (b1, nc0, s1)"
    and nc1: "nc1 = (if b1 then nc0\<lparr>forward_propagated_cycle := ?cur\<rparr> else nc0)"
    by blast
  from router_forward_unroutable [OF f unroutable_buffered [OF bad]] have nb: "\<not> b1" .
  with f have f': "SimInputBufferedVCRouter_TryForwardPropagation nc t = Inr (False, nc0, s1)"
    by simp
  note k = router_forward_not_ready [OF f']
  from nb nc1 have eq1: "nc1 = nc0" by simp
  from k mark eq1 have mark1: "forward_propagated_cycle nc1 \<noteq> GetCurrentCycle s1" by simp
  have "nc' = nc1"
    using reverse_phase_Inr [OF rev] mark1
    by (auto simp: SimInputBufferedVCRouter_TryReversePropagation_def)
  with k eq1 nb b mark show ?thesis by simp
qed

lemma tick_each_flag:
  "tick_each tick ncs c s = Inr (c', ncs', s') \<Longrightarrow> c' \<Longrightarrow> c"
proof (induction ncs arbitrary: c s c' ncs' s')
  case Nil
  then show ?case by simp
next
  case (Cons nc ncs)
  from Cons.prems(1) obtain b nc1 s1 ncs1 where
    "tick_each tick ncs (c \<and> b) s1 = Inr (c', ncs1, s')"
    unfolding tick_each_Cons_Inr by blast
  from Cons.IH [OF this Cons.prems(2)] show ?case by simp
qed

lemma tick_each_blocked:
  assumes step: "\<And>nc t b nc' t'. tick nc t = Inr (b, nc', t') \<Longrightarrow> J t \<Longrightarrow> B nc \<Longrightarrow>
                   \<not> b \<and> B nc'"
    and keep: "\<And>nc t b nc' t'. tick nc t = Inr (b, nc', t') \<Longrightarrow> J t \<Longrightarrow> J t'"
  shows "tick_each tick ncs c t = Inr (c', ncs', t') \<Longrightarrow> J t \<Longrightarrow> \<exists>nc \<in> set ncs. B nc \<Longrightarrow>
         \<not> c' \<and> (\<exists>nc \<in> set ncs'. B nc)"
proof (induction ncs arbitrary: c t c' ncs' t')
  case Nil
  then show ?case by simp
next
  case (Cons nc ncs)
  from Cons.prems(1) obtain b nc1 t1 ncs1 where
    one: "tick nc t = Inr (b, nc1, t1)"
    and rest: "tick_each tick ncs (c \<and> b) t1 = Inr (c', ncs1, t')"
    and ncs': "ncs' = nc1 # ncs1"
    unfolding tick_each_Cons_Inr by blast
  from keep [OF one Cons.prems(2)] have J1: "J t1" .
  show ?case
  proof (cases "B nc")
    case True
    from step [OF one Cons.prems(2) True] have nb: "\<not> b" and B1: "B nc1" by simp_all
    from nb rest have "tick_each tick ncs False t1 = Inr (c', ncs1, t')" by simp
    from tick_each_flag [OF this] have "\<not> c'" by blast
    with B1 ncs' show ?thesis by simp
  next
    case False
    with Cons.prems(3) have "\<exists>nc \<in> set ncs. B nc" by simp
    from Cons.IH [OF rest J1 this] ncs' show ?thesis by simp
  qed
qed

lemma NocSimulator_Tick_blocked:
  assumes run: "NocSimulator_Tick s = Inr (b, s')" and blocked: "blocked_by_route s"
  shows "\<not> b \<and> blocked_by_route s'"
proof -
  from run obtain c1 ncs1 t1 c2 ncs2 t2 c3 ncs3 t3 ncs4 t4 where
    c: "tick_each SimInputBufferedVCRouter_Tick (routers s) c2 (t2\<lparr>links := ncs2\<rparr>) =
       Inr (c3, ncs3, t3)"
    and d: "tick_each SimNetworkInterfaceSink_Tick (network_interface_sinks s) c3
              (t3\<lparr>routers := ncs3\<rparr>) = Inr (b, ncs4, t4)"
    and fr: "frame s t1" "frame (t1\<lparr>network_interface_sources := ncs1\<rparr>) t2"
      "frame (t2\<lparr>links := ncs2\<rparr>) t3" "frame (t3\<lparr>routers := ncs3\<rparr>) t4"
    and s': "s' = t4\<lparr>network_interface_sinks := ncs4\<rparr>"
    by (rule NocSimulator_Tick_Inr)
  let ?J = "\<lambda>t. routing t = routing s \<and> cycle_sim t = cycle_sim s"
  let ?B = "\<lambda>nc. forward_propagated_cycle nc \<noteq> cycle_sim s \<and>
        (\<exists>i < length (input_buffers_router nc). \<exists>v < length (input_buffers_router nc ! i).
           unroutable_head s nc i v (queue (input_buffers_router nc ! i ! v)))"
  from frame_fields [OF fr(1)] frame_fields [OF fr(2)]
  have J2: "?J (t2\<lparr>links := ncs2\<rparr>)" by simp
  from blocked have ex: "\<exists>nc \<in> set (routers s). ?B nc"
    by (simp add: blocked_by_route_def)
  have "\<not> c3 \<and> (\<exists>nc \<in> set ncs3. ?B nc)"
  proof (rule tick_each_blocked [where J = ?J and B = ?B, OF _ _ c J2 ex])
    fix nc t b nc' t'
    assume tick: "SimInputBufferedVCRouter_Tick nc t = Inr (b, nc', t')" and J: "?J t"
    from frame_fields [OF router_Tick_frame [OF tick]] J show "?J t'" by simp
  next
    fix nc t b nc' t'
    assume tick: "SimInputBufferedVCRouter_Tick nc t = Inr (b, nc', t')" and J: "?J t"
      and B: "?B nc"
    from B obtain i v where iv: "i < length (input_buffers_router nc)"
      "v < length (input_buffers_router nc ! i)"
      and bad: "unroutable_head s nc i v (queue (input_buffers_router nc ! i ! v))"
      by blast
    from bad J have bad': "unroutable_head t nc i v (queue (input_buffers_router nc ! i ! v))"
      by (simp add: unroutable_head_def)
    from B J have mark: "forward_propagated_cycle nc \<noteq> GetCurrentCycle t"
      by (simp add: GetCurrentCycle_def)
    note k = router_Tick_blocked [OF tick mark bad']
    from k bad iv have "unroutable_head s nc' i v (queue (input_buffers_router nc' ! i ! v))"
      by (simp add: unroutable_head_def)
    with k iv J show "\<not> b \<and> ?B nc'"
      by (auto simp: GetCurrentCycle_def)
  qed
  then have nc3: "\<not> c3" and ex3: "\<exists>nc \<in> set ncs3. ?B nc" by simp_all
  from tick_each_flag [OF d] nc3 have "\<not> b" by blast
  moreover from frame_fields [OF fr(1)] frame_fields [OF fr(2)] frame_fields [OF fr(3)]
    frame_fields [OF fr(4)]
  have "routers s' = ncs3" "cycle_sim s' = cycle_sim s" "routing s' = routing s"
    by (simp_all add: s')
  with ex3 have "blocked_by_route s'"
    by (auto simp: blocked_by_route_def unroutable_head_def)
  ultimately show ?thesis by simp
qed

lemma run_ticks_blocked:
  assumes blocked: "blocked_by_route s"
  shows "run_ticks s n \<noteq> Some (Inr r)"
proof
  assume run: "run_ticks s n = Some (Inr r)"
  have "blocked_by_route s \<longrightarrow> (\<forall>r. y \<noteq> Inr r)" if "run_ticks s n = Some y" for y
  proof (rule run_ticks.raw_induct
      [where P = "\<lambda>s n y. blocked_by_route s \<longrightarrow> (\<forall>r. y \<noteq> Inr r)", rotated, OF that])
    fix f :: "NocSimulator \<Rightarrow> int \<Rightarrow> (NocSimulator \<times> int) outcome option"
      and s n y
    assume IH: "\<And>s n y. f s n = Some y \<Longrightarrow> blocked_by_route s \<longrightarrow> (\<forall>r. y \<noteq> Inr r)"
      and body: "(case NocSimulator_Tick s of Inl e \<Rightarrow> Some (Inl e)
          | Inr (converged, sim1) \<Rightarrow>
              if converged then Some (Inr (sim1, n + 1)) else f sim1 (n + 1)) = Some y"
    show "blocked_by_route s \<longrightarrow> (\<forall>r. y \<noteq> Inr r)"
    proof (intro impI allI)
      fix r assume bl: "blocked_by_route s"
      show "y \<noteq> Inr r"
      proof (cases "NocSimulator_Tick s")
        case (Inl e)
        with body show ?thesis by auto
      next
        case (Inr p)
        obtain b s1 where p: "p = (b, s1)" by (cases p)
        from NocSimulator_Tick_blocked [OF Inr [unfolded p] bl]
        have nb: "\<not> b" and bl1: "blocked_by_route s1" by simp_all
        from body Inr p nb have "f s1 (n + 1) = Some y" by simp
        from IH [OF this] bl1 show ?thesis by blast
      qed
    qed
  qed
  with run blocked show False by blast
qed

lemma RunCycle_blocked:
  assumes "blocked_by_route (s\<lparr>cycle_sim := cycle_sim s + 1\<rparr>)"
  shows "RunCycle s m \<noteq> Some (Inr (st, s'))"
proof
  assume "RunCycle s m = Some (Inr (st, s'))"
  from RunCycle_Inr [OF this] run_ticks_blocked [OF assms] show False by blast
qed

lemma tick_each_fault_at:
  "tick_each tick pre c s = Inr (c1, pre', t) \<Longrightarrow> tick nc t = Inl e \<Longrightarrow>
   tick_each tick (pre @ nc # post) c s = Inl e"
proof (induction pre arbitrary: c s c1 pre')
  case Nil
  then show ?case by simp
next
  case (Cons x xs)
  from Cons.prems(1) obtain b x1 s1 xs1 where
    one: "tick x s = Inr (b, x1, s1)"
    and rest: "tick_each tick xs (c \<and> b) s1 = Inr (c1, xs1, t)"
    unfolding tick_each_Cons_Inr by blast
  from Cons.IH [OF rest Cons.prems(2)] one show ?case by simp
qed

lemma NocSimulator_Tick_router_fault:
  assumes a: "tick_each SimNetworkInterfaceSrc_Tick (network_interface_sources s) True s =
       Inr (c1, ncs1, t1)"
    and b: "tick_each SimLink_Tick (links s) c1 (t1\<lparr>network_interface_sources := ncs1\<rparr>) =
       Inr (c2, ncs2, t2)"
    and r: "routers s = pre @ nc # post"
    and c: "tick_each SimInputBufferedVCRouter_Tick pre c2 (t2\<lparr>links := ncs2\<rparr>) =
       Inr (c3, pre', t3)"
    and d: "SimInputBufferedVCRouter_Tick nc t3 = Inl e"
  shows "NocSimulator_Tick s = Inl e"
proof -
  from tick_each_frame [OF src_Tick_frame a] have f1: "frame s t1" .
  from tick_each_frame [OF link_Tick_frame b]
  have f2: "frame (t1\<lparr>network_interface_sources := ncs1\<rparr>) t2" .
  from frame_fields [OF f1] have l1: "links (t1\<lparr>network_interface_sources := ncs1\<rparr>) = links s"
    by simp
  from frame_fields [OF f1] frame_fields [OF f2] r
  have r2: "routers (t2\<lparr>links := ncs2\<rparr>) = pre @ nc # post" by simp
  from tick_each_fault_at [OF c d]
  have "tick_each SimInputBufferedVCRouter_Tick (pre @ nc # post) c2 (t2\<lparr>links := ncs2\<rparr>) = Inl e" .
  with a b l1 r2 show ?thesis
    by (simp add: NocSimulator_Tick_def Let_def)
qed

text \<open>
  Claim C2, amended. When the routing lookup for the head phit of a non-empty input buffer
  fails, the arbitration attempt fails the fatal check \<^verbatim>\<open>XLS_CHECK_OK\<close>: the process ends
  there. Arbitration loops that run to their end have found a route for the head of every
  non-empty buffer in their range. So a forward propagation of a router that meets such a
  head, buffered or just ingested, never returns success, and when its inputs are ready it
  does not return at all. A forward propagation that is cut short cuts the router's tick
  short; a router's tick that is cut short, the sources, the links and the routers before
  it having ticked, cuts the simulator's tick short; a tick that is cut short ends the
  tick loop with the same fault, a tick that has not converged is followed by the next,
  and a tick loop that ends with a fault makes \<open>RunCycle\<close> end with it. As long as a router
  that has not propagated holds such a head in a buffer, no tick converges and the router
  keeps the head: \<open>RunCycle\<close> returns no status, \<open>InternalError\<close> or other.
\<close>

theorem failed_route_lookup_aborts:
  "(\<forall>outs v i nc s.
      i < length (input_buffers_router nc) \<and> v < length (input_buffers_router nc ! i) \<and>
      queue (input_buffers_router nc ! i ! v) \<noteq> [] \<and>
      GetDestinationPortIndexAndVcIndex (routing s) (id_nc nc) (i, int v)
        (destination_index (hd (queue (input_buffers_router nc ! i ! v)))) = None \<longrightarrow>
      router_arbitrate outs v i (nc, s) = Inl CheckFailure) \<and>
   (\<forall>outs vs v i nc s r.
      for_each vs
        (\<lambda>v st. for_each [0..<length (input_buffers_router (fst st))] (router_arbitrate outs v) st)
        (nc, s) = Inr r \<and>
      v \<in> set vs \<and> i < length (input_buffers_router nc) \<and>
      v < length (input_buffers_router nc ! i) \<and>
      queue (input_buffers_router nc ! i ! v) \<noteq> [] \<longrightarrow>
      GetDestinationPortIndexAndVcIndex (routing s) (id_nc nc) (i, int v)
        (destination_index (hd (queue (input_buffers_router nc ! i ! v)))) \<noteq> None) \<and>
   (\<forall>nc s i v b nc' s'.
      unroutable_head s nc i v (arbitration_queue s nc i v) \<and>
      SimInputBufferedVCRouter_TryForwardPropagation nc s = Inr (b, nc', s') \<longrightarrow> \<not> b) \<and>
   (\<forall>nc s i v.
      unroutable_head s nc i v (arbitration_queue s nc i v) \<and>
      router_inputs_ready [0..<input_connection_count nc]
        (GetConnectionIndicesStore s (input_connection_index_start nc)
           (input_connection_count nc)) s = Inr True \<longrightarrow>
      (\<exists>e. SimInputBufferedVCRouter_TryForwardPropagation nc s = Inl e)) \<and>
   (\<forall>nc s e.
      SimInputBufferedVCRouter_TryForwardPropagation nc s = Inl e \<and>
      forward_propagated_cycle nc \<noteq> GetCurrentCycle s \<longrightarrow>
      SimInputBufferedVCRouter_Tick nc s = Inl e) \<and>
   (\<forall>s c1 ncs1 t1 c2 ncs2 t2 pre nc post c3 pre' t3 e.
      tick_each SimNetworkInterfaceSrc_Tick (network_interface_sources s) True s =
        Inr (c1, ncs1, t1) \<and>
      tick_each SimLink_Tick (links s) c1 (t1\<lparr>network_interface_sources := ncs1\<rparr>) =
        Inr (c2, ncs2, t2) \<and>
      routers s = pre @ nc # post \<and>
      tick_each SimInputBufferedVCRouter_Tick pre c2 (t2\<lparr>links := ncs2\<rparr>) =
        Inr (c3, pre', t3) \<and>
      SimInputBufferedVCRouter_Tick nc t3 = Inl e \<longrightarrow>
      NocSimulator_Tick s = Inl e) \<and>
   (\<forall>s n e. NocSimulator_Tick s = Inl e \<longrightarrow> run_ticks s n = Some (Inl e)) \<and>
   (\<forall>s n s1. NocSimulator_Tick s = Inr (False, s1) \<longrightarrow> run_ticks s n = run_ticks s1 (n + 1)) \<and>
   (\<forall>s m e. run_ticks (s\<lparr>cycle_sim := cycle_sim s + 1\<rparr>) 0 = Some (Inl e) \<longrightarrow>
      RunCycle s m = Some (Inl e)) \<and>
   (\<forall>s b s'. blocked_by_route s \<and> NocSimulator_Tick s = Inr (b, s') \<longrightarrow>
      \<not> b \<and> blocked_by_route s') \<and>
   (\<forall>s m st s'. blocked_by_route (s\<lparr>cycle_sim := cycle_sim s + 1\<rparr>) \<longrightarrow>
      RunCycle s m \<noteq> Some (Inr (st, s')))"
proof (intro conjI allI impI; (elim conjE)?)
  fix outs vs v i nc s r
  assume "for_each vs
        (\<lambda>v st. for_each [0..<length (input_buffers_router (fst st))] (router_arbitrate outs v) st)
        (nc, s) = Inr r"
    "v \<in> set vs" "i < length (input_buffers_router nc)"
    "v < length (input_buffers_router nc ! i)"
    "queue (input_buffers_router nc ! i ! v) \<noteq> []"
  then show "GetDestinationPortIndexAndVcIndex (routing s) (id_nc nc) (i, int v)
        (destination_index (hd (queue (input_buffers_router nc ! i ! v)))) \<noteq> None"
    by (rule router_arbitration_needs_routes)
next
  fix nc s i v b nc' s'
  assume "unroutable_head s nc i v (arbitration_queue s nc i v)"
    "SimInputBufferedVCRouter_TryForwardPropagation nc s = Inr (b, nc', s')"
  then show "\<not> b" by (rule router_forward_unroutable [rotated])
next
  fix nc s i v
  assume "unroutable_head s nc i v (arbitration_queue s nc i v)"
    "router_inputs_ready [0..<input_connection_count nc]
        (GetConnectionIndicesStore s (input_connection_index_start nc)
           (input_connection_count nc)) s = Inr True"
  then show "\<exists>e. SimInputBufferedVCRouter_TryForwardPropagation nc s = Inl e"
    by (rule router_forward_aborts)
next
  fix s c1 ncs1 t1 c2 ncs2 t2 pre nc post c3 pre' t3 e
  assume "tick_each SimNetworkInterfaceSrc_Tick (network_interface_sources s) True s =
        Inr (c1, ncs1, t1)"
    "tick_each SimLink_Tick (links s) c1 (t1\<lparr>network_interface_sources := ncs1\<rparr>) =
        Inr (c2, ncs2, t2)"
    "routers s = pre @ nc # post"
    "tick_each SimInputBufferedVCRouter_Tick pre c2 (t2\<lparr>links := ncs2\<rparr>) =
        Inr (c3, pre', t3)"
    "SimInputBufferedVCRouter_Tick nc t3 = Inl e"
  then show "NocSimulator_Tick s = Inl e" by (rule NocSimulator_Tick_router_fault)
next
  fix s b s'
  assume "blocked_by_route s" "NocSimulator_Tick s = Inr (b, s')"
  from NocSimulator_Tick_blocked [OF this(2) this(1)]
  show "\<not> b" "blocked_by_route s'" by simp_all
next
  fix s m st s'
  assume "blocked_by_route (s\<lparr>cycle_sim := cycle_sim s + 1\<rparr>)"
  then show "RunCycle s m \<noteq> Some (Inr (st, s'))" by (rule RunCycle_blocked)
qed (simp_all add: router_arbitrate_check_fails router_Tick_fault run_ticks_fault
       run_ticks_again RunCycle_fault_later)

lemmas bad_route_defs =
  bad_routes_def bad_route_sim_def ring_router_def example_net_defs

lemma bad_route_attempt:
  "GetDestinationPortIndexAndVcIndex bad_routes 7 (0, 0) (destination_index example_phit) = None"
  by (simp add: GetDestinationPortIndexAndVcIndex_def bad_routes_def)

lemma bad_route_forward:
  "SimInputBufferedVCRouter_TryForwardPropagation (ring_router 7 0 0)
     (bad_route_sim 1 \<lparr>cycle = 1, phit = example_phit\<rparr>) = Inl CheckFailure"
  by (simp add: router_forward_defs bad_route_defs upt_rec)

lemma bad_route_tick:
  "NocSimulator_Tick
     ((bad_route_sim 0 \<lparr>cycle = 0, phit = example_bubble\<rparr>)
        \<lparr>cycle_sim := cycle_sim (bad_route_sim 0 \<lparr>cycle = 0, phit = example_bubble\<rparr>) + 1\<rparr>) =
   Inl CheckFailure"
  by (simp add: tick_defs router_tick_defs bad_route_defs upt_rec)

theorem failed_route_lookup_counterexample:
  "GetDestinationPortIndexAndVcIndex bad_routes 7 (0, 0) (destination_index example_phit) = None \<and>
   RunCycle (bad_route_sim 0 \<lparr>cycle = 0, phit = example_bubble\<rparr>) 10 = Some (Inl CheckFailure)"
  by (simp add: RunCycle_def run_ticks_fault bad_route_tick bad_route_attempt)

lemma example_arbitration_pass:
  "for_each [0..<1]
     (\<lambda>v st. for_each [0..<length (input_buffers_router (fst st))] (router_arbitrate [2] v) st)
     (example_router_loaded, example_arriving_sim \<lparr>cycle = 0, phit = example_bubble\<rparr>) =
   Inr (example_router_won, example_arriving_sim \<lparr>cycle = 1, phit = example_phit\<rparr>)"
proof -
  have two: "length (input_buffers_router example_router_loaded) = 2"
    by (simp add: example_loaded_defs)
  have inner: "for_each [0..<2] (router_arbitrate [2] 0)
      (example_router_loaded, example_arriving_sim \<lparr>cycle = 0, phit = example_bubble\<rparr>) =
    Inr (example_router_won, example_arriving_sim \<lparr>cycle = 1, phit = example_phit\<rparr>)"
    by (simp add: upt_rec example_first_attempt example_second_attempt [unfolded One_nat_def])
  have one: "[0..<1] = [0::nat]" by simp
  show ?thesis
    unfolding one by (simp add: two inner)
qed

lemmas bad_route_waiting_defs = bad_route_waiting_def bad_route_router_def bad_route_defs

lemma bad_route_not_ready:
  "SimInputBufferedVCRouter_TryForwardPropagation (ring_router 7 0 0)
     (bad_route_sim 1 \<lparr>cycle = 0, phit = example_phit\<rparr>) =
   Inr (False, ring_router 7 0 1, bad_route_sim 1 \<lparr>cycle = 0, phit = example_phit\<rparr>)"
  by (simp add: router_forward_defs bad_route_defs upt_rec)

lemma bad_route_arrival:
  "unroutable_head (bad_route_sim 1 \<lparr>cycle = c, phit = example_phit\<rparr>) (ring_router 7 0 0) 0 0
     (arbitration_queue (bad_route_sim 1 \<lparr>cycle = c, phit = example_phit\<rparr>)
        (ring_router 7 0 0) 0 0)"
  by (simp add: unroutable_head_def arbitration_queue_def GetConnectionIndicesStore_def
        GetDestinationPortIndexAndVcIndex_def bad_route_defs)

lemma bad_route_ready:
  "router_inputs_ready [0..<input_connection_count (ring_router 7 0 0)]
     (GetConnectionIndicesStore (bad_route_sim 1 \<lparr>cycle = 1, phit = example_phit\<rparr>)
        (input_connection_index_start (ring_router 7 0 0))
        (input_connection_count (ring_router 7 0 0)))
     (bad_route_sim 1 \<lparr>cycle = 1, phit = example_phit\<rparr>) = Inr True"
  by (simp add: router_forward_defs bad_route_defs upt_rec)

lemma bad_route_sources_tick:
  "tick_each SimNetworkInterfaceSrc_Tick
     (network_interface_sources
        ((bad_route_sim 0 \<lparr>cycle = 0, phit = example_bubble\<rparr>)
           \<lparr>cycle_sim := cycle_sim (bad_route_sim 0 \<lparr>cycle = 0, phit = example_bubble\<rparr>) + 1\<rparr>))
     True
     ((bad_route_sim 0 \<lparr>cycle = 0, phit = example_bubble\<rparr>)
        \<lparr>cycle_sim := cycle_sim (bad_route_sim 0 \<lparr>cycle = 0, phit = example_bubble\<rparr>) + 1\<rparr>) =
   Inr (False,
        [example_net_src\<lparr>forward_propagated_cycle := 1, data_to_send := [[]],
           credit_src := [2]\<rparr>],
        bad_route_sim 1 \<lparr>cycle = 1, phit = example_phit\<rparr>)"
  by (simp add: tick_defs bad_route_defs upt_rec)

lemma bad_route_links_tick:
  "tick_each SimLink_Tick
     (links ((bad_route_sim 0 \<lparr>cycle = 0, phit = example_bubble\<rparr>)
           \<lparr>cycle_sim := cycle_sim (bad_route_sim 0 \<lparr>cycle = 0, phit = example_bubble\<rparr>) + 1\<rparr>))
     False
     ((bad_route_sim 1 \<lparr>cycle = 1, phit = example_phit\<rparr>)
        \<lparr>network_interface_sources :=
           [example_net_src\<lparr>forward_propagated_cycle := 1, data_to_send := [[]],
              credit_src := [2]\<rparr>]\<rparr>) =
   Inr (False, [],
        (bad_route_sim 1 \<lparr>cycle = 1, phit = example_phit\<rparr>)
        \<lparr>network_interface_sources :=
           [example_net_src\<lparr>forward_propagated_cycle := 1, data_to_send := [[]],
              credit_src := [2]\<rparr>]\<rparr>)"
  by (simp add: bad_route_defs)

lemma bad_route_router_tick:
  "SimInputBufferedVCRouter_Tick (ring_router 7 0 0)
     ((bad_route_sim 1 \<lparr>cycle = 1, phit = example_phit\<rparr>)
        \<lparr>network_interface_sources :=
           [example_net_src\<lparr>forward_propagated_cycle := 1, data_to_send := [[]],
              credit_src := [2]\<rparr>],
         links := []\<rparr>) = Inl CheckFailure"
  by (simp add: router_tick_defs bad_route_defs upt_rec)

lemma bad_route_waiting_tick:
  "NocSimulator_Tick (bad_route_waiting 1) = Inr (False, bad_route_waiting 1)"
  by (simp add: tick_defs router_tick_defs bad_route_waiting_defs upt_rec)

lemma bad_route_waiting_blocked: "blocked_by_route (bad_route_waiting 1)"
  unfolding blocked_by_route_def
  by (simp add: unroutable_head_def GetDestinationPortIndexAndVcIndex_def bad_route_waiting_defs)

theorem failed_route_lookup_aborts_witness:
  "(0 < length (input_buffers_router bad_route_router) \<and>
    0 < length (input_buffers_router bad_route_router ! 0) \<and>
    queue (input_buffers_router bad_route_router ! 0 ! 0) \<noteq> [] \<and>
    GetDestinationPortIndexAndVcIndex
      (routing (bad_route_sim 1 \<lparr>cycle = 1, phit = example_phit\<rparr>)) (id_nc bad_route_router)
      (0, int 0)
      (destination_index (hd (queue (input_buffers_router bad_route_router ! 0 ! 0)))) = None) \<and>
   router_arbitrate [1] 0 0
     (bad_route_router, bad_route_sim 1 \<lparr>cycle = 1, phit = example_phit\<rparr>) = Inl CheckFailure \<and>
   GetDestinationPortIndexAndVcIndex
     (routing (example_arriving_sim \<lparr>cycle = 0, phit = example_bubble\<rparr>))
     (id_nc example_router_loaded) (1, int 0)
     (destination_index (hd (queue (input_buffers_router example_router_loaded ! 1 ! 0)))) \<noteq>
     None \<and>
   unroutable_head (bad_route_sim 1 \<lparr>cycle = 0, phit = example_phit\<rparr>) (ring_router 7 0 0) 0 0
     (arbitration_queue (bad_route_sim 1 \<lparr>cycle = 0, phit = example_phit\<rparr>)
        (ring_router 7 0 0) 0 0) \<and>
   SimInputBufferedVCRouter_TryForwardPropagation (ring_router 7 0 0)
     (bad_route_sim 1 \<lparr>cycle = 0, phit = example_phit\<rparr>) =
     Inr (False, ring_router 7 0 1, bad_route_sim 1 \<lparr>cycle = 0, phit = example_phit\<rparr>) \<and>
   unroutable_head (bad_route_sim 1 \<lparr>cycle = 1, phit = example_phit\<rparr>) (ring_router 7 0 0) 0 0
     (arbitration_queue (bad_route_sim 1 \<lparr>cycle = 1, phit = example_phit\<rparr>)
        (ring_router 7 0 0) 0 0) \<and>
   router_inputs_ready [0..<input_connection_count (ring_router 7 0 0)]
     (GetConnectionIndicesStore (bad_route_sim 1 \<lparr>cycle = 1, phit = example_phit\<rparr>)
        (input_connection_index_start (ring_router 7 0 0))
        (input_connection_count (ring_router 7 0 0)))
     (bad_route_sim 1 \<lparr>cycle = 1, phit = example_phit\<rparr>) = Inr True \<and>
   (\<exists>e. SimInputBufferedVCRouter_TryForwardPropagation (ring_router 7 0 0)
          (bad_route_sim 1 \<lparr>cycle = 1, phit = example_phit\<rparr>) = Inl e) \<and>
   SimInputBufferedVCRouter_TryForwardPropagation (ring_router 7 0 0)
     (bad_route_sim 1 \<lparr>cycle = 1, phit = example_phit\<rparr>) = Inl CheckFailure \<and>
   SimInputBufferedVCRouter_Tick (ring_router 7 0 0)
     (bad_route_sim 1 \<lparr>cycle = 1, phit = example_phit\<rparr>) = Inl CheckFailure \<and>
   routers ((bad_route_sim 0 \<lparr>cycle = 0, phit = example_bubble\<rparr>)
        \<lparr>cycle_sim := cycle_sim (bad_route_sim 0 \<lparr>cycle = 0, phit = example_bubble\<rparr>) + 1\<rparr>) =
     [] @ ring_router 7 0 0 # [] \<and>
   SimInputBufferedVCRouter_Tick (ring_router 7 0 0)
     ((bad_route_sim 1 \<lparr>cycle = 1, phit = example_phit\<rparr>)
        \<lparr>network_interface_sources :=
           [example_net_src\<lparr>forward_propagated_cycle := 1, data_to_send := [[]],
              credit_src := [2]\<rparr>],
         links := []\<rparr>) = Inl CheckFailure \<and>
   NocSimulator_Tick
     ((bad_route_sim 0 \<lparr>cycle = 0, phit = example_bubble\<rparr>)
        \<lparr>cycle_sim := cycle_sim (bad_route_sim 0 \<lparr>cycle = 0, phit = example_bubble\<rparr>) + 1\<rparr>) =
     Inl CheckFailure \<and>
   run_ticks
     ((bad_route_sim 0 \<lparr>cycle = 0, phit = example_bubble\<rparr>)
        \<lparr>cycle_sim := cycle_sim (bad_route_sim 0 \<lparr>cycle = 0, phit = example_bubble\<rparr>) + 1\<rparr>) 0 =
     Some (Inl CheckFailure) \<and>
   run_ticks (example_net_start\<lparr>cycle_sim := cycle_sim example_net_start + 1\<rparr>) 0 =
     run_ticks example_net_sent (0 + 1) \<and>
   RunCycle (bad_route_sim 0 \<lparr>cycle = 0, phit = example_bubble\<rparr>) 3 = Some (Inl CheckFailure) \<and>
   blocked_by_route (bad_route_waiting 1) \<and>
   NocSimulator_Tick (bad_route_waiting 1) = Inr (False, bad_route_waiting 1) \<and>
   blocked_by_route ((bad_route_waiting 0)\<lparr>cycle_sim := cycle_sim (bad_route_waiting 0) + 1\<rparr>) \<and>
   (\<forall>st s'. RunCycle (bad_route_waiting 0) 10 \<noteq> Some (Inr (st, s')))"
proof -
  note T = failed_route_lookup_aborts
  let ?start = "(bad_route_sim 0 \<lparr>cycle = 0, phit = example_bubble\<rparr>)
        \<lparr>cycle_sim := cycle_sim (bad_route_sim 0 \<lparr>cycle = 0, phit = example_bubble\<rparr>) + 1\<rparr>"
  have cell: "0 < length (input_buffers_router bad_route_router) \<and>
    0 < length (input_buffers_router bad_route_router ! 0) \<and>
    queue (input_buffers_router bad_route_router ! 0 ! 0) \<noteq> [] \<and>
    GetDestinationPortIndexAndVcIndex
      (routing (bad_route_sim 1 \<lparr>cycle = 1, phit = example_phit\<rparr>)) (id_nc bad_route_router)
      (0, int 0)
      (destination_index (hd (queue (input_buffers_router bad_route_router ! 0 ! 0)))) = None"
    by (simp add: bad_route_router_def bad_route_defs GetDestinationPortIndexAndVcIndex_def)
  note a = T [THEN conjunct1, rule_format, OF cell, of "[1]"]
  have good: "for_each [0..<1]
     (\<lambda>v st. for_each [0..<length (input_buffers_router (fst st))] (router_arbitrate [2] v) st)
     (example_router_loaded, example_arriving_sim \<lparr>cycle = 0, phit = example_bubble\<rparr>) =
     Inr (example_router_won, example_arriving_sim \<lparr>cycle = 1, phit = example_phit\<rparr>) \<and>
     0 \<in> set [0..<1] \<and> 1 < length (input_buffers_router example_router_loaded) \<and>
     0 < length (input_buffers_router example_router_loaded ! 1) \<and>
     queue (input_buffers_router example_router_loaded ! 1 ! 0) \<noteq> []"
    by (intro conjI, rule example_arbitration_pass) (simp_all add: example_loaded_defs)
  note b = T [THEN conjunct2, THEN conjunct1, rule_format, OF good]
  note T2 = T [THEN conjunct2, THEN conjunct2]
  from T2 [THEN conjunct1, rule_format,
      OF conjI [OF bad_route_arrival [of 0] bad_route_not_ready]]
  have waits: "\<not> False" .
  note T3 = T2 [THEN conjunct2]
  note aborts = T3 [THEN conjunct1, rule_format,
      OF conjI [OF bad_route_arrival [of 1] bad_route_ready]]
  have fwd: "SimInputBufferedVCRouter_TryForwardPropagation (ring_router 7 0 0)
       (bad_route_sim 1 \<lparr>cycle = 1, phit = example_phit\<rparr>) = Inl CheckFailure \<and>
     forward_propagated_cycle (ring_router 7 0 0) \<noteq>
       GetCurrentCycle (bad_route_sim 1 \<lparr>cycle = 1, phit = example_phit\<rparr>)"
    by (intro conjI, rule bad_route_forward) (simp add: bad_route_defs GetCurrentCycle_def)
  note T4 = T3 [THEN conjunct2]
  note c = T4 [THEN conjunct1, rule_format, OF fwd]
  have r: "routers ?start = [] @ ring_router 7 0 0 # []"
    by (simp add: bad_route_defs)
  have pre: "tick_each SimInputBufferedVCRouter_Tick [] False
     ((bad_route_sim 1 \<lparr>cycle = 1, phit = example_phit\<rparr>)
        \<lparr>network_interface_sources :=
           [example_net_src\<lparr>forward_propagated_cycle := 1, data_to_send := [[]],
              credit_src := [2]\<rparr>],
         links := []\<rparr>) =
     Inr (False, [],
       (bad_route_sim 1 \<lparr>cycle = 1, phit = example_phit\<rparr>)
        \<lparr>network_interface_sources :=
           [example_net_src\<lparr>forward_propagated_cycle := 1, data_to_send := [[]],
              credit_src := [2]\<rparr>],
         links := []\<rparr>)"
    by simp
  note T5 = T4 [THEN conjunct2]
  note tick = T5 [THEN conjunct1, rule_format,
      OF conjI [OF bad_route_sources_tick conjI [OF bad_route_links_tick
           conjI [OF r conjI [OF pre bad_route_router_tick]]]]]
  note T6 = T5 [THEN conjunct2]
  note d = T6 [THEN conjunct1, rule_format, OF tick, of 0]
  note T7 = T6 [THEN conjunct2]
  note e = T7 [THEN conjunct1, rule_format, OF example_net_first_tick, of 0]
  note T8 = T7 [THEN conjunct2]
  note f = T8 [THEN conjunct1, rule_format, OF d, of 3]
  note T9 = T8 [THEN conjunct2]
  note g = T9 [THEN conjunct1, rule_format,
      OF conjI [OF bad_route_waiting_blocked bad_route_waiting_tick]]
  have start: "(bad_route_waiting 0)\<lparr>cycle_sim := cycle_sim (bad_route_waiting 0) + 1\<rparr> =
      bad_route_waiting 1"
    by (simp add: bad_route_waiting_defs)
  from bad_route_waiting_blocked
  have bl: "blocked_by_route ((bad_route_waiting 0)\<lparr>cycle_sim := cycle_sim (bad_route_waiting 0) + 1\<rparr>)"
    by (simp only: start)
  from T9 [THEN conjunct2, rule_format, OF bl, of 10]
  have h: "\<forall>st s'. RunCycle (bad_route_waiting 0) 10 \<noteq> Some (Inr (st, s'))" by blast
  from cell a b bad_route_arrival [of 0] bad_route_not_ready bad_route_arrival [of 1]
    bad_route_ready aborts fwd c r bad_route_router_tick tick d e f
    bad_route_waiting_blocked bad_route_waiting_tick bl h
  show ?thesis
    by (intro conjI) simp_all
qed

subsection \<open>Stamps after a cycle\<close>

lemma cycle_sim_put_connection [simp]: "cycle_sim (put_connection j c s) = cycle_sim s"
  by (simp add: put_connection_def)

lemma stamps_kept_refl [simp]: "stamps_kept s s"
  by (simp add: stamps_kept_def)

lemma stamps_kept_trans: "stamps_kept s t \<Longrightarrow> stamps_kept t u \<Longrightarrow> stamps_kept s u"
  unfolding stamps_kept_def by (blast intro: frame_trans)

lemma stamps_kept_frame: "stamps_kept s t \<Longrightarrow> frame s t"
  by (simp add: stamps_kept_def)

lemma stamps_kept_cycle: "stamps_kept s t \<Longrightarrow> cycle_sim t = cycle_sim s"
  by (simp add: stamps_kept_def frame_fields)

lemma conn_kept_refl [simp]: "conn_kept k c c"
  by (simp add: conn_kept_def)

lemma conn_kept_trans: "conn_kept k c d \<Longrightarrow> conn_kept k d e \<Longrightarrow> conn_kept k c e"
  unfolding conn_kept_def by auto

lemma stamps_kept_put_connection:
  assumes j: "j < length (connections s)" and c: "conn_kept (cycle_sim s) (connections s ! j) c"
  shows "stamps_kept s (put_connection j c s)"
proof -
  from c have len: "length (reverse_channels c) = length (reverse_channels (connections s ! j))"
    by (simp add: conn_kept_def)
  have fr: "frame s (put_connection j c s)"
    by (rule frame_put_connection [OF j len])
  have cyc: "cycle_sim (put_connection j c s) = cycle_sim s"
    by (simp add: put_connection_def)
  show ?thesis
    unfolding stamps_kept_def
  proof (intro conjI allI impI)
    show "frame s (put_connection j c s)" by (rule fr)
  next
    fix i assume "fwd_stamped s i"
    with c j show "fwd_stamped (put_connection j c s) i"
      by (cases "i = j") (auto simp: fwd_stamped_def conn_kept_def cyc)
  next
    fix i v assume "rev_stamped s i v"
    with c j show "rev_stamped (put_connection j c s) i v"
      by (cases "i = j") (auto simp: rev_stamped_def conn_kept_def cyc)
  qed
qed

lemma conn_kept_forward:
  "cycle ch = k \<or> ch = forward_channels c \<Longrightarrow> conn_kept k c (c\<lparr>forward_channels := ch\<rparr>)"
  by (auto simp: conn_kept_def)

lemma conn_kept_reverse:
  "cycle r = k \<or> r = reverse_channels c ! v \<Longrightarrow>
   conn_kept k c (c\<lparr>reverse_channels := (reverse_channels c)[v := r]\<rparr>)"
  by (cases "v < length (reverse_channels c)") (auto simp: conn_kept_def nth_list_update)

lemma fwd_stamped_kept: "stamps_kept s t \<Longrightarrow> fwd_stamped s j \<Longrightarrow> fwd_stamped t j"
  by (simp add: stamps_kept_def)

lemma rev_stamped_kept: "stamps_kept s t \<Longrightarrow> rev_stamped s j v \<Longrightarrow> rev_stamped t j v"
  by (simp add: stamps_kept_def)

lemma all_rev_stamped_kept:
  assumes "stamps_kept s t" and "all_rev_stamped s j"
  shows "all_rev_stamped t j"
proof -
  from assms(2) have j: "j < length (connections s)" by (simp add: all_rev_stamped_def)
  from stamps_kept_frame [OF assms(1)] have fr: "frame s t" .
  from frame_reverse_length [OF fr j] frame_fields [OF fr] assms j show ?thesis
    by (auto simp: all_rev_stamped_def dest: rev_stamped_kept)
qed

lemma src_update_credits_fields:
  assumes "for_each vs src_update_credit nc = Inr nc1"
  shows "sink_connection_index_src nc1 = sink_connection_index_src nc \<and>
         forward_propagated_cycle nc1 = forward_propagated_cycle nc \<and>
         reverse_propagated_cycle nc1 = reverse_propagated_cycle nc"
  by (rule for_each_invariant [where I = "\<lambda>m. sink_connection_index_src m = sink_connection_index_src nc \<and>
         forward_propagated_cycle m = forward_propagated_cycle nc \<and>
         reverse_propagated_cycle m = reverse_propagated_cycle nc", OF assms])
     (auto simp: src_update_credit_def and_then_eq_Inr split: if_splits)

lemma src_forward_stamps:
  assumes run: "SimNetworkInterfaceSrc_TryForwardPropagation nc s = Inr (b, nc', s')"
  shows "stamps_kept s s' \<and> fwd_stamped s' (sink_connection_index_src nc) \<and>
         sink_connection_index_src nc' = sink_connection_index_src nc \<and>
         reverse_propagated_cycle nc' = reverse_propagated_cycle nc"
proof -
  from run obtain nc1 did nc2 s2 where
    upd: "for_each [0..<length (credit_src nc)] src_update_credit nc = Inr nc1"
    and send: "src_send_data [0..<length (data_to_send nc1)] (GetCurrentCycle s) nc1 s = Inr (did, nc2, s2)"
    and idx: "sink_connection_index_src nc2 < length (connections s2)"
    and nc': "nc' = nc2\<lparr>forward_propagated_cycle := GetCurrentCycle s\<rparr>"
    and s': "s' = (if \<not> did then
             put_connection (sink_connection_index_src nc2)
               ((connections s2 ! sink_connection_index_src nc2)\<lparr>forward_channels :=
                  \<lparr>cycle = GetCurrentCycle s,
                   phit = \<lparr>valid = False, data = 0, vc = 0, destination_index = 0\<rparr>\<rparr>\<rparr>) s2
           else s2)"
    by (rule src_forward_Inr)
  note f1 = src_update_credits_fields [OF upd]
  from src_send_data_cases [OF send] show ?thesis
  proof (elim disjE conjE exE)
    assume "\<not> did" "nc2 = nc1" "s2 = s"
    with f1 idx nc' s' show ?thesis
      by (auto simp: GetCurrentCycle_def fwd_stamped_def
            intro!: stamps_kept_put_connection conn_kept_forward)
  next
    fix v assume "did" "sink_connection_index_src nc1 < length (connections s)"
      "nc2 = nc1\<lparr>credit_src := (credit_src nc1)[v := credit_src nc1 ! v - 1],
                     data_to_send := (data_to_send nc1)[v := tl (data_to_send nc1 ! v)]\<rparr>"
      "s2 = put_connection (sink_connection_index_src nc1)
                  ((connections s ! sink_connection_index_src nc1)\<lparr>forward_channels :=
                     \<lparr>cycle = GetCurrentCycle s,
                      phit = (phit (hd (data_to_send nc1 ! v)))\<lparr>valid := True, vc := int v\<rparr>\<rparr>\<rparr>)
                  s"
    with f1 idx nc' s' show ?thesis
      by (auto simp: GetCurrentCycle_def fwd_stamped_def
            intro!: stamps_kept_put_connection conn_kept_forward)
  qed
qed

lemma src_reverse_fields:
  assumes run: "SimNetworkInterfaceSrc_TryReversePropagation nc s = Inr (b, nc', s')"
  shows "s' = s \<and> sink_connection_index_src nc' = sink_connection_index_src nc \<and>
         forward_propagated_cycle nc' = forward_propagated_cycle nc \<and>
         (\<not> b \<longrightarrow> reverse_propagated_cycle nc' = reverse_propagated_cycle nc)"
proof -
  from run obtain n nc1 k where
    loop: "for_each [0..<n] (src_receive_credit (GetCurrentCycle s) s) (nc, 0) = Inr (nc1, k)"
    and nc': "nc' = (if b then nc1\<lparr>reverse_propagated_cycle := GetCurrentCycle s\<rparr> else nc1)"
    and s': "s' = s"
    by (auto simp: SimNetworkInterfaceSrc_TryReversePropagation_def Let_def and_then_eq_Inr
          split: if_splits)
  have "sink_connection_index_src (fst (nc1, k)) = sink_connection_index_src nc \<and>
         forward_propagated_cycle (fst (nc1, k)) = forward_propagated_cycle nc \<and>
         reverse_propagated_cycle (fst (nc1, k)) = reverse_propagated_cycle nc"
    by (rule for_each_invariant [where I = "\<lambda>st. sink_connection_index_src (fst st) = sink_connection_index_src nc \<and>
         forward_propagated_cycle (fst st) = forward_propagated_cycle nc \<and>
         reverse_propagated_cycle (fst st) = reverse_propagated_cycle nc", OF loop])
       (auto simp: src_receive_credit_def and_then_eq_Inr split: if_splits)
  with nc' s' show ?thesis by auto
qed

lemma link_forward_stamps:
  assumes run: "SimLink_TryForwardPropagation nc s = Inr (b, nc', s')"
  shows "stamps_kept s s' \<and> (b \<longrightarrow> fwd_stamped s' (sink_connection_index_link nc)) \<and>
         sink_connection_index_link nc' = sink_connection_index_link nc \<and>
         src_connection_index_link nc' = src_connection_index_link nc \<and>
         reverse_propagated_cycle nc' = reverse_propagated_cycle nc \<and>
         (\<not> b \<longrightarrow> forward_propagated_cycle nc' = forward_propagated_cycle nc)"
proof -
  from run obtain t' st' where
    idx: "src_connection_index_link nc < length (connections s)"
         "sink_connection_index_link nc < length (connections s)"
    and tp: "TryPropagation (GetCurrentCycle s) (forward_pipeline_stages nc)
              (forward_channels (connections s ! src_connection_index_link nc))
              (forward_channels (connections s ! sink_connection_index_link nc))
              (forward_data_stages nc) = (b, t', st')"
    and nc': "nc' = (if b then nc\<lparr>forward_data_stages := st', forward_propagated_cycle := GetCurrentCycle s\<rparr>
                     else nc\<lparr>forward_data_stages := st'\<rparr>)"
    and s': "s' = put_connection (sink_connection_index_link nc)
                        ((connections s ! sink_connection_index_link nc)\<lparr>forward_channels := t'\<rparr>) s"
    by (auto simp: SimLink_TryForwardPropagation_def Let_def and_then_eq_Inr
          GetSimConnectionByIndex_eq_Inr split: if_splits prod.splits)
  from TryPropagation_cases [OF tp] have
    c: "cycle t' = cycle_sim s \<or> t' = forward_channels (connections s ! sink_connection_index_link nc)"
    by (auto simp: GetCurrentCycle_def)
  have kept: "stamps_kept s s'"
    unfolding s' by (rule stamps_kept_put_connection [OF idx(2) conn_kept_forward [OF c]])
  have "b \<Longrightarrow> fwd_stamped s' (sink_connection_index_link nc)"
  proof -
    assume b
    with tp have "cycle t' = GetCurrentCycle s"
      by (auto dest: TryPropagation_True_unchanged)
    with idx s' show ?thesis by (auto simp: fwd_stamped_def GetCurrentCycle_def)
  qed
  with kept nc' show ?thesis by auto
qed

lemma link_reverse_lane_stamps:
  assumes run: "link_reverse_lane v (nc, t, k) = Inr (nc', t', k')"
  shows "stamps_kept t t' \<and>
         sink_connection_index_link nc' = sink_connection_index_link nc \<and>
         src_connection_index_link nc' = src_connection_index_link nc \<and>
         forward_propagated_cycle nc' = forward_propagated_cycle nc \<and>
         reverse_propagated_cycle nc' = reverse_propagated_cycle nc \<and>
         (k' = k + 1 \<longrightarrow> rev_stamped t' (src_connection_index_link nc) v)"
proof -
  let ?src = "connections t ! src_connection_index_link nc"
  let ?sink = "connections t ! sink_connection_index_link nc"
  from run have idx: "src_connection_index_link nc < length (connections t)"
         "sink_connection_index_link nc < length (connections t)"
    by (simp_all add: link_reverse_lane_def and_then_eq_Inr)
  from run idx have v: "v < length (reverse_channels ?sink)" "v < length (reverse_channels ?src)"
           "v < length (reverse_credit_stages nc)"
    by (simp_all add: link_reverse_lane_def and_then_eq_Inr)
  obtain b to' st' where
    tp: "TryPropagation (GetCurrentCycle t) (reverse_pipeline_stages nc)
              (reverse_channels ?sink ! v) (reverse_channels ?src ! v)
              (reverse_credit_stages nc ! v) = (b, to', st')"
    by (rule prod_cases3)
  from run idx v tp have
    nc': "nc' = nc\<lparr>reverse_credit_stages := (reverse_credit_stages nc)[v := st']\<rparr>"
    and t': "t' = put_connection (src_connection_index_link nc)
                  (?src\<lparr>reverse_channels := (reverse_channels ?src)[v := to']\<rparr>) t"
    and k': "k' = (if b then k + 1 else k)"
    by (simp_all add: link_reverse_lane_def vec_index_def vec_at_def GetSimConnectionByIndex_def)
  from TryPropagation_cases [OF tp] have
    c: "cycle to' = cycle_sim t \<or> to' = reverse_channels ?src ! v"
    by (auto simp: GetCurrentCycle_def)
  have kept: "stamps_kept t t'"
    unfolding t' by (rule stamps_kept_put_connection [OF idx(1) conn_kept_reverse [OF c]])
  have "k' = k + 1 \<Longrightarrow> rev_stamped t' (src_connection_index_link nc) v"
  proof -
    assume full: "k' = k + 1"
    have b
    proof (rule ccontr)
      assume "\<not> b"
      with k' full show False by simp
    qed
    with tp have tp': "TryPropagation (GetCurrentCycle t) (reverse_pipeline_stages nc)
              (reverse_channels ?sink ! v) (reverse_channels ?src ! v)
              (reverse_credit_stages nc ! v) = (True, to', st')" by simp
    from TryPropagation_True_unchanged [OF tp'] have
      same: "to' = reverse_channels ?src ! v" and cyc: "cycle (reverse_channels ?src ! v) = cycle_sim t"
      by (simp_all add: GetCurrentCycle_def)
    from same idx have "t' = t" by (simp add: t')
    with idx v cyc show ?thesis by (simp add: rev_stamped_def)
  qed
  with kept nc' show ?thesis by simp
qed

lemma link_reverse_loop_stamps:
  "for_each vs link_reverse_lane (nc, s, k) = Inr (nc', s', k') \<Longrightarrow>
   stamps_kept s s' \<and>
   sink_connection_index_link nc' = sink_connection_index_link nc \<and>
   src_connection_index_link nc' = src_connection_index_link nc \<and>
   forward_propagated_cycle nc' = forward_propagated_cycle nc \<and>
   reverse_propagated_cycle nc' = reverse_propagated_cycle nc \<and>
   (k' = k + length vs \<longrightarrow> (\<forall>v \<in> set vs. rev_stamped s' (src_connection_index_link nc) v))"
proof (induction vs arbitrary: nc s k)
  case Nil
  then show ?case by simp
next
  case (Cons w ws)
  from Cons.prems obtain st where
    st: "link_reverse_lane w (nc, s, k) = Inr st" "for_each ws link_reverse_lane st = Inr (nc', s', k')"
    unfolding for_each_Cons_Inr by blast
  obtain nc1 s1 k1 where st_eq: "st = (nc1, s1, k1)" by (cases st)
  note lane = link_reverse_lane_stamps [OF st(1) [unfolded st_eq]]
  note cnt1 = link_reverse_lane_count [OF st(1) [unfolded st_eq]]
  note rest = Cons.IH [OF st(2) [unfolded st_eq]]
  note cnt2 = link_reverse_loop_count [OF st(2) [unfolded st_eq]]
  from lane rest have kept: "stamps_kept s s'" by (blast intro: stamps_kept_trans)
  have "k' = k + length (w # ws) \<Longrightarrow>
        \<forall>v \<in> set (w # ws). rev_stamped s' (src_connection_index_link nc) v"
  proof -
    assume full: "k' = k + length (w # ws)"
    with cnt1 cnt2 have k1: "k1 = k + 1" "k' = k1 + length ws" by auto
    from lane k1 have "rev_stamped s1 (src_connection_index_link nc) w" by simp
    with rest have "rev_stamped s' (src_connection_index_link nc) w"
      by (blast intro: rev_stamped_kept)
    moreover from rest k1 lane have "\<forall>v \<in> set ws. rev_stamped s' (src_connection_index_link nc) v"
      by simp
    ultimately show ?thesis by simp
  qed
  with kept lane rest show ?case by simp
qed

lemma link_reverse_stamps:
  assumes run: "SimLink_TryReversePropagation nc s = Inr (b, nc', s')"
  shows "stamps_kept s s' \<and> (b \<longrightarrow> link_credited nc s') \<and>
         sink_connection_index_link nc' = sink_connection_index_link nc \<and>
         src_connection_index_link nc' = src_connection_index_link nc \<and>
         forward_propagated_cycle nc' = forward_propagated_cycle nc \<and>
         (\<not> b \<longrightarrow> reverse_propagated_cycle nc' = reverse_propagated_cycle nc)"
proof -
  let ?n = "length (reverse_channels (connections s ! sink_connection_index_link nc))"
  from run obtain nc1 k where
    idx: "sink_connection_index_link nc < length (connections s)"
    and loop: "for_each [0..<?n] link_reverse_lane (nc, s, 0) = Inr (nc1, s', k)"
    and b: "b = (k = ?n)"
    and nc': "nc' = (if b then nc1\<lparr>reverse_propagated_cycle := GetCurrentCycle s\<rparr> else nc1)"
    by (auto simp: SimLink_TryReversePropagation_def Let_def and_then_eq_Inr
          GetSimConnectionByIndex_eq_Inr split: if_splits)
  note l = link_reverse_loop_stamps [OF loop]
  from l have kept: "stamps_kept s s'" by simp
  from stamps_kept_frame [OF kept] have fr: "frame s s'" .
  have "b \<Longrightarrow> link_credited nc s'"
  proof -
    assume b
    with b l have "\<forall>v < ?n. rev_stamped s' (src_connection_index_link nc) v" by simp
    with frame_reverse_length [OF fr idx] frame_fields [OF fr] idx show ?thesis
      by (simp add: link_credited_def)
  qed
  with l nc' show ?thesis by auto
qed

lemma router_unmoved_refl [simp]: "router_unmoved nc nc"
  by (simp add: router_unmoved_def)

lemma router_unmoved_trans: "router_unmoved a b \<Longrightarrow> router_unmoved b c \<Longrightarrow> router_unmoved a c"
  by (simp add: router_unmoved_def)

lemma router_update_credits_unmoved:
  assumes run: "router_update_credits nc = Inr nc'"
  shows "router_unmoved nc nc'"
proof -
  let ?I = "router_unmoved nc"
  from run have loop: "for_each [0..<length (credit_update_router nc)]
       (\<lambda>i nc1. for_each [0..<length (credit_update_router nc1 ! i)] (router_update_credit i) nc1)
       nc = Inr nc'"
    by (simp add: router_update_credits_def)
  show ?thesis
  proof (rule for_each_invariant [where I = ?I, OF loop])
    show "?I nc" by simp
  next
    fix w t t'
    assume t: "?I t"
      "for_each [0..<length (credit_update_router t ! w)] (router_update_credit w) t = Inr t'"
    show "?I t'"
      by (rule for_each_invariant [where I = ?I, OF t(2) t(1)])
         (auto simp: router_update_credit_def and_then_eq_Inr router_unmoved_def router_wiring_def
            split: if_splits)
  qed
qed

lemma router_arbitrate_stamps:
  assumes run: "router_arbitrate outs v i (nc, t) = Inr (nc', t')"
  shows "stamps_kept t t' \<and> router_unmoved nc nc'"
  using router_arbitrate_cases [OF run]
  by (auto simp: router_unmoved_def router_wiring_def GetCurrentCycle_def
        intro!: stamps_kept_put_connection conn_kept_forward)

lemma router_arbitration_stamps:
  assumes run: "for_each vs (\<lambda>v st. for_each (cells st) (router_arbitrate outs v) st) (nc, s) =
                  Inr (nc', s')"
  shows "stamps_kept s s' \<and> router_unmoved nc nc'"
proof -
  let ?I = "\<lambda>st. stamps_kept s (snd st) \<and> router_unmoved nc (fst st)"
  have "?I (nc', s')"
  proof (rule for_each_invariant [where I = ?I, OF run])
    show "?I (nc, s)" by simp
  next
    fix w t t'
    assume inv: "?I t" and inner: "for_each (cells t) (router_arbitrate outs w) t = Inr t'"
    show "?I t'"
    proof (rule for_each_invariant [where I = ?I, OF inner inv])
      fix x u u' assume u: "?I u" "router_arbitrate outs w x u = Inr u'"
      from router_arbitrate_stamps [of outs w x "fst u" "snd u" "fst u'" "snd u'"] u
      show "?I u'"
        by (auto intro: stamps_kept_trans router_unmoved_trans)
    qed
  qed
  then show ?thesis by simp
qed

lemma router_bubble_stamps:
  assumes run: "router_bubble outs i t = Inr t'"
  shows "stamps_kept t t' \<and> i < length outs \<and> fwd_stamped t' (outs ! i)"
  using run
  by (auto simp: router_bubble_def and_then_eq_Inr fwd_stamped_def GetCurrentCycle_def
        split: if_splits intro!: stamps_kept_put_connection conn_kept_forward)

lemma router_bubbles_stamp:
  assumes run: "for_each [0..<length outs] (router_bubble outs) s = Inr s'"
  shows "stamps_kept s s' \<and> (\<forall>j \<in> set outs. fwd_stamped s' j)"
proof -
  have kept: "stamps_kept s s'"
    by (rule for_each_invariant [where I = "stamps_kept s", OF run])
       (auto dest: router_bubble_stamps intro: stamps_kept_trans)
  have "fwd_stamped s' j" if j: "j \<in> set outs" for j
  proof -
    from j obtain i where i: "i < length outs" "outs ! i = j"
      by (auto simp: in_set_conv_nth)
    have "fwd_stamped s' (outs ! i)"
    proof (rule for_each_establishes [where I = "\<lambda>t. True" and v = i, OF run])
      show "i \<in> set [0..<length outs]" using i by simp
    next
      fix t t' assume "router_bubble outs i t = Inr t'"
      then show "fwd_stamped t' (outs ! i)" by (simp add: router_bubble_stamps)
    next
      fix w t t' assume "fwd_stamped t (outs ! i)" "router_bubble outs w t = Inr t'"
      then show "fwd_stamped t' (outs ! i)"
        by (blast dest: router_bubble_stamps intro: fwd_stamped_kept)
    qed simp_all
    with i show ?thesis by simp
  qed
  with kept show ?thesis by simp
qed

lemma router_forward_stamps:
  assumes run: "SimInputBufferedVCRouter_TryForwardPropagation nc s = Inr (b, nc', s')"
  shows "stamps_kept s s' \<and> (b \<longrightarrow> router_driven nc s') \<and>
         router_wiring nc' = router_wiring nc \<and>
         reverse_propagated_cycle nc' = reverse_propagated_cycle nc \<and>
         (\<not> b \<longrightarrow> forward_propagated_cycle nc' = forward_propagated_cycle nc)"
proof -
  let ?cur = "GetCurrentCycle s"
  let ?outs = "GetConnectionIndicesStore s (output_connection_index_start nc)
                 (output_connection_count nc)"
  from run obtain nc1 where
    upd: "(if internal_propagated_cycle nc \<noteq> ?cur then
             and_then (router_update_credits nc) (\<lambda>nc1.
               Inr (nc1\<lparr>internal_propagated_cycle := ?cur\<rparr>))
           else Inr nc) = Inr nc1"
    by (auto simp: SimInputBufferedVCRouter_TryForwardPropagation_def Let_def and_then_eq_Inr)
  have u1: "router_unmoved nc nc1"
    using upd
    by (auto simp: and_then_eq_Inr router_unmoved_def router_wiring_def split: if_splits
          dest!: router_update_credits_unmoved [unfolded router_unmoved_def router_wiring_def])
  show ?thesis
  proof (cases b)
    case False
    with run upd have "nc' = nc1" "s' = s"
      by (auto simp: SimInputBufferedVCRouter_TryForwardPropagation_def Let_def and_then_eq_Inr
            split: if_splits)
    with u1 False show ?thesis by (simp add: router_unmoved_def)
  next
    case True
    with run upd obtain nc2 nc3 nc4 s4 ins where
      reset: "for_each [0..<input_connection_count nc1] router_reset_credit_to_send nc1 = Inr nc2"
      and ingest: "for_each [0..<input_connection_count nc2] (router_ingest ins s) nc2 = Inr nc3"
      and arb: "for_each [0..<max_vc nc3]
            (\<lambda>v st. for_each [0..<length (input_buffers_router (fst st))]
                       (router_arbitrate ?outs v) st) (nc3, s) = Inr (nc4, s4)"
      and bub: "for_each [0..<length ?outs] (router_bubble ?outs) s4 = Inr s'"
      and nc': "nc' = nc4\<lparr>forward_propagated_cycle := ?cur\<rparr>"
      by (auto simp: SimInputBufferedVCRouter_TryForwardPropagation_def Let_def and_then_eq_Inr
            split: if_splits)
    have u2: "router_unmoved nc1 nc2"
      by (rule for_each_invariant [where I = "router_unmoved nc1", OF reset])
         (auto simp: router_reset_credit_to_send_def and_then_eq_Inr router_unmoved_def
            router_wiring_def)
    have u3: "router_unmoved nc2 nc3"
      by (rule for_each_invariant [where I = "router_unmoved nc2", OF ingest])
         (auto simp: router_ingest_def and_then_eq_Inr router_unmoved_def router_wiring_def
            split: if_splits)
    from arb have a: "stamps_kept s s4 \<and> router_unmoved nc3 nc4"
      by (rule router_arbitration_stamps
          [where cells = "\<lambda>st. [0..<length (input_buffers_router (fst st))]"])
    note bb = router_bubbles_stamp [OF bub]
    from a bb have kept: "stamps_kept s s'" by (blast intro: stamps_kept_trans)
    from stamps_kept_frame [OF kept] have fr: "frame s s'" .
    from bb frame_fields [OF fr] have "router_driven nc s'"
      by (simp add: router_driven_def)
    with kept u1 u2 u3 a nc' True show ?thesis
      by (simp add: router_unmoved_def router_wiring_def)
  qed
qed

lemma router_send_credit_stamps:
  assumes run: "router_send_credit nc ins i v t = Inr t'"
  shows "stamps_kept t t' \<and>
         (v < length (reverse_channels (connections t ! (ins ! i))) \<longrightarrow>
            rev_stamped t' (ins ! i) v)"
  using router_send_credit_Inr [OF run]
  by (auto simp: GetCurrentCycle_def rev_stamped_def
        intro!: stamps_kept_put_connection conn_kept_reverse)

lemma router_send_credits_stamps:
  assumes run: "router_send_credits nc ins i t = Inr t'"
  shows "stamps_kept t t' \<and> i < length ins \<and> all_rev_stamped t' (ins ! i)"
proof -
  let ?n = "length (reverse_channels (connections t ! (ins ! i)))"
  from run have i: "i < length ins" "ins ! i < length (connections t)"
    and loop: "for_each [0..<?n] (router_send_credit nc ins i) t = Inr t'"
    by (auto simp: router_send_credits_def and_then_eq_Inr)
  have kept: "stamps_kept t t'"
    by (rule for_each_invariant [where I = "stamps_kept t", OF loop])
       (auto dest: router_send_credit_stamps intro: stamps_kept_trans)
  from stamps_kept_frame [OF kept] have fr: "frame t t'" .
  have "rev_stamped t' (ins ! i) v" if v: "v < ?n" for v
  proof (rule for_each_establishes [where I = "stamps_kept t" and v = v, OF loop])
    show "v \<in> set [0..<?n]" using v by simp
  next
    show "stamps_kept t t" by simp
  next
    fix w u u' assume "stamps_kept t u" "router_send_credit nc ins i w u = Inr u'"
    then show "stamps_kept t u'"
      by (blast dest: router_send_credit_stamps intro: stamps_kept_trans)
  next
    fix u u' assume u: "stamps_kept t u" "router_send_credit nc ins i v u = Inr u'"
    from frame_reverse_length [OF stamps_kept_frame [OF u(1)] i(2)] v
    have "v < length (reverse_channels (connections u ! (ins ! i)))" by simp
    with router_send_credit_stamps [OF u(2)] show "rev_stamped u' (ins ! i) v" by simp
  next
    fix w u u' assume "rev_stamped u (ins ! i) v" "router_send_credit nc ins i w u = Inr u'"
    then show "rev_stamped u' (ins ! i) v"
      by (blast dest: router_send_credit_stamps intro: rev_stamped_kept)
  qed
  with frame_reverse_length [OF fr i(2)] frame_fields [OF fr] i kept show ?thesis
    by (simp add: all_rev_stamped_def)
qed

lemma router_receive_credit_unmoved:
  "router_receive_credit s outs i v st = Inr st' \<Longrightarrow> router_unmoved (fst st) (fst st')"
  by (cases st, cases st')
     (auto simp: router_receive_credit_def and_then_eq_Inr router_unmoved_def router_wiring_def
        split: if_splits)

lemma router_reverse_stamps:
  assumes run: "SimInputBufferedVCRouter_TryReversePropagation nc s = Inr (b, nc', s')"
  shows "stamps_kept s s' \<and> (b \<longrightarrow> router_credited nc s') \<and>
         router_wiring nc' = router_wiring nc \<and>
         forward_propagated_cycle nc' = forward_propagated_cycle nc \<and>
         reverse_propagated_cycle nc' = reverse_propagated_cycle nc"
proof (cases "forward_propagated_cycle nc = GetCurrentCycle s")
  case False
  with run show ?thesis
    by (simp add: SimInputBufferedVCRouter_TryReversePropagation_def)
next
  case True
  let ?ins = "GetConnectionIndicesStore s (input_connection_index_start nc)
                (input_connection_count nc)"
  let ?I = "\<lambda>st. router_unmoved nc (fst st)"
  from router_reverse_Inr [OF run True] have
    send: "for_each [0..<input_connection_count nc] (router_send_credits nc ?ins) s = Inr s'" .
  from run True obtain s1 outs k m where
    loop: "for_each [0..<length (credit_update_router nc)]
             (router_receive_credits s1 outs) (nc, 0, 0) = Inr (nc', k, m)"
    by (auto simp: SimInputBufferedVCRouter_TryReversePropagation_def Let_def and_then_eq_Inr)
  have "?I (nc', k, m)"
  proof (rule for_each_invariant [where I = ?I, OF loop])
    show "?I (nc, 0, 0)" by simp
  next
    fix w t t' assume t: "?I t" "router_receive_credits s1 outs w t = Inr t'"
    from t(2) have inner: "for_each [0..<length (credit_update_router (fst t) ! w)]
         (router_receive_credit s1 outs w) t = Inr t'"
      by (auto simp: router_receive_credits_def and_then_eq_Inr)
    show "?I t'"
      by (rule for_each_invariant [where I = ?I, OF inner t(1)])
         (blast dest: router_receive_credit_unmoved intro: router_unmoved_trans)
  qed
  then have unmoved: "router_unmoved nc nc'" by simp
  have kept: "stamps_kept s s'"
    by (rule for_each_invariant [where I = "stamps_kept s", OF send])
       (auto dest: router_send_credits_stamps intro: stamps_kept_trans)
  from stamps_kept_frame [OF kept] have fr: "frame s s'" .
  have "all_rev_stamped s' j" if j: "j \<in> set ?ins" for j
  proof -
    from j obtain i where i: "i < length ?ins" "?ins ! i = j"
      by (auto simp: in_set_conv_nth)
    from i(1) have i': "i < input_connection_count nc"
      by (simp add: GetConnectionIndicesStore_def)
    have "all_rev_stamped s' (?ins ! i)"
    proof (rule for_each_establishes [where I = "\<lambda>t. True" and v = i, OF send])
      show "i \<in> set [0..<input_connection_count nc]" using i' by simp
    next
      fix t t' assume "router_send_credits nc ?ins i t = Inr t'"
      then show "all_rev_stamped t' (?ins ! i)" by (simp add: router_send_credits_stamps)
    next
      fix w t t' assume "all_rev_stamped t (?ins ! i)" "router_send_credits nc ?ins w t = Inr t'"
      then show "all_rev_stamped t' (?ins ! i)"
        by (blast dest: router_send_credits_stamps intro: all_rev_stamped_kept)
    qed simp_all
    with i show ?thesis by simp
  qed
  with frame_fields [OF fr] have "router_credited nc s'"
    by (simp add: router_credited_def)
  with kept unmoved show ?thesis by (simp add: router_unmoved_def)
qed

lemma sink_no_credit_stamps:
  assumes run: "sink_no_credit k v c = Inr c'"
  shows "conn_kept k c c' \<and> v < length (reverse_channels c) \<and>
         cycle (reverse_channels c' ! v) = k"
  using run
  by (auto simp: sink_no_credit_def and_then_eq_Inr intro!: conn_kept_reverse split: if_splits)

lemma conn_kept_stamped:
  "conn_kept k c c' \<Longrightarrow> v < length (reverse_channels c) \<Longrightarrow>
   cycle (reverse_channels c ! v) = k \<Longrightarrow> cycle (reverse_channels c' ! v) = k"
  by (simp add: conn_kept_def)

lemma conn_kept_length:
  "conn_kept k c c' \<Longrightarrow> length (reverse_channels c') = length (reverse_channels c)"
  by (simp add: conn_kept_def)

lemma sink_no_credit_loop:
  "for_each vs (sink_no_credit k) c = Inr c' \<Longrightarrow>
   conn_kept k c c' \<and>
   (\<forall>v \<in> set vs. v < length (reverse_channels c) \<and> cycle (reverse_channels c' ! v) = k)"
proof (induction vs arbitrary: c)
  case Nil
  then show ?case by simp
next
  case (Cons w ws)
  from Cons.prems obtain c1 where
    c1: "sink_no_credit k w c = Inr c1" "for_each ws (sink_no_credit k) c1 = Inr c'"
    unfolding for_each_Cons_Inr by blast
  note one = sink_no_credit_stamps [OF c1(1)]
  note rest = Cons.IH [OF c1(2)]
  from one rest have kept: "conn_kept k c c'" by (blast intro: conn_kept_trans)
  from one rest have w: "cycle (reverse_channels c' ! w) = k"
    by (auto intro: conn_kept_stamped simp: conn_kept_length)
  from one rest w kept show ?case by (auto simp: conn_kept_length)
qed

lemma sink_full_credit_stamps:
  assumes run: "for_each vs (sink_full_credit nc) c = Inr c'"
  shows "conn_kept 0 c c' \<and>
         (\<forall>v \<in> set vs. v < length (reverse_channels c) \<longrightarrow> cycle (reverse_channels c' ! v) = 0)"
  using sink_full_credit_loop [OF run] by (auto simp: conn_kept_def)

lemma sink_forward_stamps:
  assumes run: "SimNetworkInterfaceSink_TryForwardPropagation nc s = Inr (b, nc', s')"
  shows "stamps_kept s s' \<and> (b \<longrightarrow> sink_credited nc s') \<and>
         src_connection_index_sink nc' = src_connection_index_sink nc \<and>
         forward_propagated_cycle nc' = forward_propagated_cycle nc \<and>
         reverse_propagated_cycle nc' = reverse_propagated_cycle nc"
proof -
  let ?k = "cycle_sim s"
  let ?j = "src_connection_index_sink nc"
  let ?src = "connections s ! ?j"
  from run have j: "?j < length (connections s)"
    by (auto simp: SimNetworkInterfaceSink_TryForwardPropagation_def Let_def and_then_eq_Inr)
  show ?thesis
  proof (cases b)
    case False
    with run show ?thesis
      by (auto simp: SimNetworkInterfaceSink_TryForwardPropagation_def Let_def and_then_eq_Inr
            split: if_splits)
  next
    case True
    with run j obtain nc1 src1 src2 where
      first: "(if valid (phit (forward_channels ?src)) then
               and_then (vec_index_int (reverse_channels ?src) (vc (phit (forward_channels ?src))))
                 (\<lambda>_. Inr (nc\<lparr>received_traffic := received_traffic nc @
                                 [\<lparr>cycle = ?k, phit = phit (forward_channels ?src)\<rparr>]\<rparr>,
                            ?src\<lparr>reverse_channels := (reverse_channels ?src)
                              [nat (vc (phit (forward_channels ?src))) :=
                                 \<lparr>cycle = ?k, phit = \<lparr>valid = True, data = 1\<rparr>\<rparr>]\<rparr>))
             else Inr (nc, ?src)) = Inr (nc1, src1)"
      and loop: "(if ?k = 0
             then for_each [0..<length (reverse_channels src1)] (sink_full_credit nc1) src1
             else for_each [0..<length (reverse_channels src1)] (sink_no_credit ?k) src1) = Inr src2"
      and nc': "nc' = nc1" and s': "s' = put_connection (src_connection_index_sink nc1) src2 s"
      by (auto simp: SimNetworkInterfaceSink_TryForwardPropagation_def Let_def and_then_eq_Inr
            GetCurrentCycle_def split: if_splits)
    from first have f: "conn_kept ?k ?src src1 \<and> src_connection_index_sink nc1 = ?j \<and>
        forward_propagated_cycle nc1 = forward_propagated_cycle nc \<and>
        reverse_propagated_cycle nc1 = reverse_propagated_cycle nc"
      by (auto simp: and_then_eq_Inr intro!: conn_kept_reverse split: if_splits)
    from loop have l: "conn_kept ?k src1 src2 \<and>
        (\<forall>v < length (reverse_channels src1). cycle (reverse_channels src2 ! v) = ?k)"
      by (auto split: if_splits dest!: sink_no_credit_loop sink_full_credit_stamps)
    from f l have kept: "conn_kept ?k ?src src2" by (blast intro: conn_kept_trans)
    from f s' have s'': "s' = put_connection ?j src2 s" by simp
    have sk: "stamps_kept s s'"
      unfolding s'' by (rule stamps_kept_put_connection [OF j kept])
    from l j have "sink_credited nc s'"
      by (simp add: sink_credited_def all_rev_stamped_def rev_stamped_def s''
            conn_kept_length [OF conjunct1 [OF l]])
    with sk f nc' show ?thesis by simp
  qed
qed

lemma base_Tick_settled:
  fixes F R :: "'a SimNetworkComponentBase_scheme \<Rightarrow> NocSimulator \<Rightarrow> bool"
    and w :: "'a SimNetworkComponentBase_scheme \<Rightarrow> 'w"
  assumes run: "SimNetworkComponentBase_Tick f r nc s = Inr (b, nc', s')"
    and P: "(forward_propagated_cycle nc = cycle_sim s \<longrightarrow> F nc s) \<and>
            (reverse_propagated_cycle nc = cycle_sim s \<longrightarrow> R nc s)"
    and f: "\<And>nc s b nc' s'. f nc s = Inr (b, nc', s') \<Longrightarrow>
              stamps_kept s s' \<and> (b \<longrightarrow> F nc s') \<and> w nc' = w nc \<and>
              reverse_propagated_cycle nc' = reverse_propagated_cycle nc \<and>
              (\<not> b \<longrightarrow> forward_propagated_cycle nc' = forward_propagated_cycle nc)"
    and r: "\<And>nc s b nc' s'. r nc s = Inr (b, nc', s') \<Longrightarrow>
              stamps_kept s s' \<and> (b \<longrightarrow> R nc s') \<and> w nc' = w nc \<and>
              forward_propagated_cycle nc' = forward_propagated_cycle nc \<and>
              (\<not> b \<longrightarrow> reverse_propagated_cycle nc' = reverse_propagated_cycle nc)"
    and wF: "\<And>nc nc' t. w nc' = w nc \<Longrightarrow> F nc' t = F nc t"
    and wR: "\<And>nc nc' t. w nc' = w nc \<Longrightarrow> R nc' t = R nc t"
    and wf: "\<And>nc x. w (nc\<lparr>forward_propagated_cycle := x\<rparr>) = w nc"
    and wr: "\<And>nc x. w (nc\<lparr>reverse_propagated_cycle := x\<rparr>) = w nc"
    and monoF: "\<And>nc s s'. stamps_kept s s' \<Longrightarrow> F nc s \<Longrightarrow> F nc s'"
    and monoR: "\<And>nc s s'. stamps_kept s s' \<Longrightarrow> R nc s \<Longrightarrow> R nc s'"
  shows "stamps_kept s s' \<and>
         (forward_propagated_cycle nc' = cycle_sim s' \<longrightarrow> F nc' s') \<and>
         (reverse_propagated_cycle nc' = cycle_sim s' \<longrightarrow> R nc' s')"
proof -
  let ?cur = "cycle_sim s"
  from base_Tick_Inr [OF run] obtain b1 nc1 s1 b2 where
    fwd: "forward_phase f ?cur nc s = Inr (b1, nc1, s1)"
    and rev: "reverse_phase r ?cur nc1 s1 = Inr (b2, nc', s')"
    by (auto simp: GetCurrentCycle_def)
  have one: "stamps_kept s s1 \<and> w nc1 = w nc \<and>
             reverse_propagated_cycle nc1 = reverse_propagated_cycle nc \<and>
             (forward_propagated_cycle nc1 = ?cur \<longrightarrow> F nc1 s1)"
    using forward_phase_Inr [OF fwd]
  proof (elim disjE conjE exE)
    assume "forward_propagated_cycle nc = ?cur" "nc1 = nc" "s1 = s"
    with P show ?thesis by simp
  next
    fix nc0
    assume a: "forward_propagated_cycle nc \<noteq> ?cur" "f nc s = Inr (b1, nc0, s1)"
      "nc1 = (if b1 then nc0\<lparr>forward_propagated_cycle := ?cur\<rparr> else nc0)"
    note f0 = f [OF a(2)]
    show ?thesis
    proof (cases b1)
      case True
      from f0 True have "F nc s1" by simp
      with wF [of "nc0\<lparr>forward_propagated_cycle := ?cur\<rparr>" nc s1] wf [where nc = nc0 and x = ?cur] f0
      have "F (nc0\<lparr>forward_propagated_cycle := ?cur\<rparr>) s1" by simp
      with a f0 True wf [where nc = nc0 and x = ?cur] show ?thesis by simp
    next
      case False
      with a f0 show ?thesis by simp
    qed
  qed
  from one have k1: "cycle_sim s1 = ?cur" by (simp add: stamps_kept_cycle)
  have two: "stamps_kept s1 s' \<and> w nc' = w nc1 \<and>
             forward_propagated_cycle nc' = forward_propagated_cycle nc1 \<and>
             (reverse_propagated_cycle nc' = ?cur \<longrightarrow> R nc' s')"
    using reverse_phase_Inr [OF rev]
  proof (elim disjE conjE exE)
    assume a: "reverse_propagated_cycle nc1 = ?cur" "nc' = nc1" "s' = s1"
    with one P have "R nc s" by simp
    with one have "R nc s1" by (blast intro: monoR)
    with wR [of nc1 nc s1] one have "R nc1 s1" by simp
    with a show ?thesis by simp
  next
    fix nc0
    assume a: "reverse_propagated_cycle nc1 \<noteq> ?cur" "r nc1 s1 = Inr (b2, nc0, s')"
      "nc' = (if b2 then nc0\<lparr>reverse_propagated_cycle := ?cur\<rparr> else nc0)"
    note r0 = r [OF a(2)]
    show ?thesis
    proof (cases b2)
      case True
      from r0 True have "R nc1 s'" by simp
      with wR [of "nc0\<lparr>reverse_propagated_cycle := ?cur\<rparr>" nc1 s'] wr [where nc = nc0 and x = ?cur] r0
      have "R (nc0\<lparr>reverse_propagated_cycle := ?cur\<rparr>) s'" by simp
      with a r0 True wr [where nc = nc0 and x = ?cur] show ?thesis by simp
    next
      case False
      with a r0 show ?thesis by simp
    qed
  qed
  from one two have kept: "stamps_kept s s'" by (blast intro: stamps_kept_trans)
  then have k': "cycle_sim s' = ?cur" by (rule stamps_kept_cycle)
  have "F nc' s'" if "forward_propagated_cycle nc' = ?cur"
  proof -
    from that one two have "F nc1 s1" by simp
    with two have "F nc1 s'" by (blast intro: monoF)
    with wF [of nc' nc1 s'] two show ?thesis by simp
  qed
  with kept two k' show ?thesis by simp
qed

lemma link_credited_kept:
  assumes kept: "stamps_kept s t" and c: "link_credited nc s"
  shows "link_credited nc t"
proof -
  from c have j: "sink_connection_index_link nc < length (connections s)"
    by (simp add: link_credited_def)
  from stamps_kept_frame [OF kept] have fr: "frame s t" .
  from frame_reverse_length [OF fr j] frame_fields [OF fr] c j show ?thesis
    by (auto simp: link_credited_def intro: rev_stamped_kept [OF kept])
qed

lemma router_driven_kept:
  "stamps_kept s t \<Longrightarrow> router_driven nc s \<Longrightarrow> router_driven nc t"
  using frame_fields [OF stamps_kept_frame, of s t]
  by (auto simp: router_driven_def intro: fwd_stamped_kept)

lemma router_credited_kept:
  "stamps_kept s t \<Longrightarrow> router_credited nc s \<Longrightarrow> router_credited nc t"
  using frame_fields [OF stamps_kept_frame, of s t]
  by (auto simp: router_credited_def intro: all_rev_stamped_kept)

lemma src_Tick_settled:
  assumes run: "SimNetworkInterfaceSrc_Tick nc s = Inr (b, nc', s')" and P: "src_settled nc s"
  shows "stamps_kept s s' \<and> src_settled nc' s'"
proof -
  have "stamps_kept s s' \<and>
         (forward_propagated_cycle nc' = cycle_sim s' \<longrightarrow>
            fwd_stamped s' (sink_connection_index_src nc')) \<and>
         (reverse_propagated_cycle nc' = cycle_sim s' \<longrightarrow> True)"
  proof (rule base_Tick_settled
      [where F = "\<lambda>nc t. fwd_stamped t (sink_connection_index_src nc)"
         and R = "\<lambda>nc t. True" and w = sink_connection_index_src,
       OF run [unfolded SimNetworkInterfaceSrc_Tick_def]])
    show "(forward_propagated_cycle nc = cycle_sim s \<longrightarrow>
             fwd_stamped s (sink_connection_index_src nc)) \<and>
          (reverse_propagated_cycle nc = cycle_sim s \<longrightarrow> True)"
      using P by (simp add: src_settled_def)
  next
    fix nc s b nc' s'
    assume "SimNetworkInterfaceSrc_TryForwardPropagation nc s = Inr (b, nc', s')"
    from src_forward_stamps [OF this] src_forward_Inr [OF this]
    show "stamps_kept s s' \<and> (b \<longrightarrow> fwd_stamped s' (sink_connection_index_src nc)) \<and>
          sink_connection_index_src nc' = sink_connection_index_src nc \<and>
          reverse_propagated_cycle nc' = reverse_propagated_cycle nc \<and>
          (\<not> b \<longrightarrow> forward_propagated_cycle nc' = forward_propagated_cycle nc)"
      by metis
  next
    fix nc s b nc' s'
    assume "SimNetworkInterfaceSrc_TryReversePropagation nc s = Inr (b, nc', s')"
    from src_reverse_fields [OF this]
    show "stamps_kept s s' \<and> (b \<longrightarrow> True) \<and>
          sink_connection_index_src nc' = sink_connection_index_src nc \<and>
          forward_propagated_cycle nc' = forward_propagated_cycle nc \<and>
          (\<not> b \<longrightarrow> reverse_propagated_cycle nc' = reverse_propagated_cycle nc)"
      by simp
  qed (auto intro: fwd_stamped_kept)
  then show ?thesis by (simp add: src_settled_def)
qed

lemma link_Tick_settled:
  assumes run: "SimLink_Tick nc s = Inr (b, nc', s')" and P: "link_settled nc s"
  shows "stamps_kept s s' \<and> link_settled nc' s'"
proof -
  have "stamps_kept s s' \<and>
         (forward_propagated_cycle nc' = cycle_sim s' \<longrightarrow>
            fwd_stamped s' (sink_connection_index_link nc')) \<and>
         (reverse_propagated_cycle nc' = cycle_sim s' \<longrightarrow> link_credited nc' s')"
  proof (rule base_Tick_settled
      [where F = "\<lambda>nc t. fwd_stamped t (sink_connection_index_link nc)"
         and R = link_credited and w = link_wiring,
       OF run [unfolded SimLink_Tick_def]])
    show "(forward_propagated_cycle nc = cycle_sim s \<longrightarrow>
             fwd_stamped s (sink_connection_index_link nc)) \<and>
          (reverse_propagated_cycle nc = cycle_sim s \<longrightarrow> link_credited nc s)"
      using P by (simp add: link_settled_def)
  next
    fix nc s b nc' s'
    assume "SimLink_TryForwardPropagation nc s = Inr (b, nc', s')"
    from link_forward_stamps [OF this]
    show "stamps_kept s s' \<and> (b \<longrightarrow> fwd_stamped s' (sink_connection_index_link nc)) \<and>
          link_wiring nc' = link_wiring nc \<and>
          reverse_propagated_cycle nc' = reverse_propagated_cycle nc \<and>
          (\<not> b \<longrightarrow> forward_propagated_cycle nc' = forward_propagated_cycle nc)"
      by (simp add: link_wiring_def)
  next
    fix nc s b nc' s'
    assume "SimLink_TryReversePropagation nc s = Inr (b, nc', s')"
    from link_reverse_stamps [OF this]
    show "stamps_kept s s' \<and> (b \<longrightarrow> link_credited nc s') \<and>
          link_wiring nc' = link_wiring nc \<and>
          forward_propagated_cycle nc' = forward_propagated_cycle nc \<and>
          (\<not> b \<longrightarrow> reverse_propagated_cycle nc' = reverse_propagated_cycle nc)"
      by (simp add: link_wiring_def)
  qed (blast intro: fwd_stamped_kept link_credited_kept
        | simp add: link_wiring_def link_credited_def)+
  then show ?thesis by (simp add: link_settled_def)
qed

lemma router_Tick_settled:
  assumes run: "SimInputBufferedVCRouter_Tick nc s = Inr (b, nc', s')" and P: "router_settled nc s"
  shows "stamps_kept s s' \<and> router_settled nc' s'"
proof -
  have "stamps_kept s s' \<and>
         (forward_propagated_cycle nc' = cycle_sim s' \<longrightarrow> router_driven nc' s') \<and>
         (reverse_propagated_cycle nc' = cycle_sim s' \<longrightarrow> router_credited nc' s')"
  proof (rule base_Tick_settled
      [where F = router_driven and R = router_credited and w = router_wiring,
       OF run [unfolded SimInputBufferedVCRouter_Tick_def]])
    show "(forward_propagated_cycle nc = cycle_sim s \<longrightarrow> router_driven nc s) \<and>
          (reverse_propagated_cycle nc = cycle_sim s \<longrightarrow> router_credited nc s)"
      using P by (simp add: router_settled_def)
  next
    fix nc s b nc' s'
    assume "SimInputBufferedVCRouter_TryForwardPropagation nc s = Inr (b, nc', s')"
    from router_forward_stamps [OF this]
    show "stamps_kept s s' \<and> (b \<longrightarrow> router_driven nc s') \<and>
          router_wiring nc' = router_wiring nc \<and>
          reverse_propagated_cycle nc' = reverse_propagated_cycle nc \<and>
          (\<not> b \<longrightarrow> forward_propagated_cycle nc' = forward_propagated_cycle nc)"
      by simp
  next
    fix nc s b nc' s'
    assume "SimInputBufferedVCRouter_TryReversePropagation nc s = Inr (b, nc', s')"
    from router_reverse_stamps [OF this]
    show "stamps_kept s s' \<and> (b \<longrightarrow> router_credited nc s') \<and>
          router_wiring nc' = router_wiring nc \<and>
          forward_propagated_cycle nc' = forward_propagated_cycle nc \<and>
          (\<not> b \<longrightarrow> reverse_propagated_cycle nc' = reverse_propagated_cycle nc)"
      by simp
  qed (blast intro: router_driven_kept router_credited_kept
        | simp add: router_wiring_def router_driven_def router_credited_def)+
  then show ?thesis by (simp add: router_settled_def)
qed

lemma sink_Tick_settled:
  assumes run: "SimNetworkInterfaceSink_Tick nc s = Inr (b, nc', s')" and P: "sink_settled nc s"
  shows "stamps_kept s s' \<and> sink_settled nc' s'"
proof -
  have "stamps_kept s s' \<and>
         (forward_propagated_cycle nc' = cycle_sim s' \<longrightarrow> sink_credited nc' s') \<and>
         (reverse_propagated_cycle nc' = cycle_sim s' \<longrightarrow> True)"
  proof (rule base_Tick_settled
      [where F = sink_credited and R = "\<lambda>nc t. True" and w = src_connection_index_sink,
       OF run [unfolded SimNetworkInterfaceSink_Tick_def]])
    show "(forward_propagated_cycle nc = cycle_sim s \<longrightarrow> sink_credited nc s) \<and>
          (reverse_propagated_cycle nc = cycle_sim s \<longrightarrow> True)"
      using P by (simp add: sink_settled_def)
  next
    fix nc s b nc' s'
    assume "SimNetworkInterfaceSink_TryForwardPropagation nc s = Inr (b, nc', s')"
    from sink_forward_stamps [OF this]
    show "stamps_kept s s' \<and> (b \<longrightarrow> sink_credited nc s') \<and>
          src_connection_index_sink nc' = src_connection_index_sink nc \<and>
          reverse_propagated_cycle nc' = reverse_propagated_cycle nc \<and>
          (\<not> b \<longrightarrow> forward_propagated_cycle nc' = forward_propagated_cycle nc)"
      by simp
  next
    fix nc s b nc' s'
    assume "SimNetworkInterfaceSink_TryReversePropagation nc s = Inr (b, nc', s')"
    then show "stamps_kept s s' \<and> (b \<longrightarrow> True) \<and>
          src_connection_index_sink nc' = src_connection_index_sink nc \<and>
          forward_propagated_cycle nc' = forward_propagated_cycle nc \<and>
          (\<not> b \<longrightarrow> reverse_propagated_cycle nc' = reverse_propagated_cycle nc)"
      by (simp add: SimNetworkInterfaceSink_TryReversePropagation_def)
  qed (blast intro: all_rev_stamped_kept | simp add: sink_credited_def)+
  then show ?thesis by (simp add: sink_settled_def)
qed

lemma tick_each_settled:
  assumes tick: "\<And>nc s b nc' s'. tick nc s = Inr (b, nc', s') \<Longrightarrow> P nc s \<Longrightarrow>
                   stamps_kept s s' \<and> P nc' s'"
    and mono: "\<And>nc s s'. stamps_kept s s' \<Longrightarrow> P nc s \<Longrightarrow> P nc s'"
  shows "tick_each tick ncs c s = Inr (c', ncs', s') \<Longrightarrow> list_all (\<lambda>nc. P nc s) ncs \<Longrightarrow>
         stamps_kept s s' \<and> list_all (\<lambda>nc. P nc s') ncs'"
proof (induction ncs arbitrary: c s c' ncs' s')
  case Nil
  then show ?case by simp
next
  case (Cons nc ncs)
  from Cons.prems(1) obtain b nc1 s1 ncs1 where
    one: "tick nc s = Inr (b, nc1, s1)"
    and rest: "tick_each tick ncs (c \<and> b) s1 = Inr (c', ncs1, s')"
    and ncs': "ncs' = nc1 # ncs1"
    unfolding tick_each_Cons_Inr by blast
  from Cons.prems(2) have head: "P nc s" and tail: "list_all (\<lambda>nc. P nc s) ncs" by simp_all
  from tick [OF one head] have k1: "stamps_kept s s1" and p1: "P nc1 s1" by simp_all
  from tail have "list_all (\<lambda>nc. P nc s1) ncs"
    by (auto simp: list_all_iff intro: mono [OF k1])
  from Cons.IH [OF rest this] have k2: "stamps_kept s1 s'" and p2: "list_all (\<lambda>nc. P nc s') ncs1"
    by simp_all
  from k1 k2 have "stamps_kept s s'" by (rule stamps_kept_trans)
  moreover from mono [OF k2 p1] have "P nc1 s'" .
  ultimately show ?case using p2 ncs' by simp
qed

lemma src_settled_kept: "stamps_kept s t \<Longrightarrow> src_settled nc s \<Longrightarrow> src_settled nc t"
  by (auto simp: src_settled_def stamps_kept_cycle intro: fwd_stamped_kept)

lemma link_settled_kept: "stamps_kept s t \<Longrightarrow> link_settled nc s \<Longrightarrow> link_settled nc t"
  by (auto simp: link_settled_def stamps_kept_cycle intro: fwd_stamped_kept link_credited_kept)

lemma router_settled_kept: "stamps_kept s t \<Longrightarrow> router_settled nc s \<Longrightarrow> router_settled nc t"
  by (auto simp: router_settled_def stamps_kept_cycle
        intro: router_driven_kept router_credited_kept)

lemma sink_settled_kept: "stamps_kept s t \<Longrightarrow> sink_settled nc s \<Longrightarrow> sink_settled nc t"
  by (auto simp: sink_settled_def sink_credited_def stamps_kept_cycle intro: all_rev_stamped_kept)

lemmas settled_defs =
  src_settled_def link_settled_def router_settled_def sink_settled_def
  link_credited_def router_driven_def router_credited_def sink_credited_def
  fwd_stamped_def rev_stamped_def all_rev_stamped_def GetConnectionIndicesStore_def

lemma settled_sources_update [simp]:
  "src_settled a (t\<lparr>network_interface_sources := x\<rparr>) = src_settled a t"
  "link_settled b (t\<lparr>network_interface_sources := x\<rparr>) = link_settled b t"
  "router_settled c (t\<lparr>network_interface_sources := x\<rparr>) = router_settled c t"
  "sink_settled d (t\<lparr>network_interface_sources := x\<rparr>) = sink_settled d t"
  by (simp_all add: settled_defs)

lemma settled_links_update [simp]:
  "src_settled a (t\<lparr>links := y\<rparr>) = src_settled a t"
  "link_settled b (t\<lparr>links := y\<rparr>) = link_settled b t"
  "router_settled c (t\<lparr>links := y\<rparr>) = router_settled c t"
  "sink_settled d (t\<lparr>links := y\<rparr>) = sink_settled d t"
  by (simp_all add: settled_defs)

lemma settled_routers_update [simp]:
  "src_settled a (t\<lparr>routers := z\<rparr>) = src_settled a t"
  "link_settled b (t\<lparr>routers := z\<rparr>) = link_settled b t"
  "router_settled c (t\<lparr>routers := z\<rparr>) = router_settled c t"
  "sink_settled d (t\<lparr>routers := z\<rparr>) = sink_settled d t"
  by (simp_all add: settled_defs)

lemma settled_sinks_update [simp]:
  "src_settled a (t\<lparr>network_interface_sinks := u\<rparr>) = src_settled a t"
  "link_settled b (t\<lparr>network_interface_sinks := u\<rparr>) = link_settled b t"
  "router_settled c (t\<lparr>network_interface_sinks := u\<rparr>) = router_settled c t"
  "sink_settled d (t\<lparr>network_interface_sinks := u\<rparr>) = sink_settled d t"
  by (simp_all add: settled_defs)

lemma NocSimulator_Tick_settled:
  assumes run: "NocSimulator_Tick s = Inr (b, s')" and inv: "stamps_settled s"
  shows "stamps_settled s'"
proof -
  from run obtain c1 ncs1 t1 c2 ncs2 t2 c3 ncs3 t3 ncs4 t4 where
    a: "tick_each SimNetworkInterfaceSrc_Tick (network_interface_sources s) True s =
       Inr (c1, ncs1, t1)"
    and b: "tick_each SimLink_Tick (links s) c1 (t1\<lparr>network_interface_sources := ncs1\<rparr>) =
       Inr (c2, ncs2, t2)"
    and c: "tick_each SimInputBufferedVCRouter_Tick (routers s) c2 (t2\<lparr>links := ncs2\<rparr>) =
       Inr (c3, ncs3, t3)"
    and d: "tick_each SimNetworkInterfaceSink_Tick (network_interface_sinks s) c3
              (t3\<lparr>routers := ncs3\<rparr>) = Inr (b, ncs4, t4)"
    and s': "s' = t4\<lparr>network_interface_sinks := ncs4\<rparr>"
    by (rule NocSimulator_Tick_Inr)
  from inv have i0: "list_all (\<lambda>nc. src_settled nc s) (network_interface_sources s)"
    "list_all (\<lambda>nc. link_settled nc s) (links s)"
    "list_all (\<lambda>nc. router_settled nc s) (routers s)"
    "list_all (\<lambda>nc. sink_settled nc s) (network_interface_sinks s)"
    by (simp_all add: stamps_settled_def)
  from tick_each_settled [where P = src_settled, OF src_Tick_settled src_settled_kept a i0(1)]
  have k1: "stamps_kept s t1" and p1: "list_all (\<lambda>nc. src_settled nc t1) ncs1" by simp_all
  let ?u1 = "t1\<lparr>network_interface_sources := ncs1\<rparr>"
  from i0 have i1: "list_all (\<lambda>nc. link_settled nc t1) (links s)"
    "list_all (\<lambda>nc. router_settled nc t1) (routers s)"
    "list_all (\<lambda>nc. sink_settled nc t1) (network_interface_sinks s)"
    by (auto simp: list_all_iff intro: link_settled_kept [OF k1] router_settled_kept [OF k1]
          sink_settled_kept [OF k1])
  from i1(1) have "list_all (\<lambda>nc. link_settled nc ?u1) (links s)" by simp
  from tick_each_settled [where P = link_settled, OF link_Tick_settled link_settled_kept b this]
  have k2: "stamps_kept ?u1 t2" and p2: "list_all (\<lambda>nc. link_settled nc t2) ncs2" by simp_all
  let ?u2 = "t2\<lparr>links := ncs2\<rparr>"
  have m2: "src_settled x t1 \<Longrightarrow> src_settled x t2"
    "router_settled y t1 \<Longrightarrow> router_settled y t2"
    "sink_settled z t1 \<Longrightarrow> sink_settled z t2" for x y z
    using src_settled_kept [OF k2, of x] router_settled_kept [OF k2, of y]
      sink_settled_kept [OF k2, of z] by simp_all
  from p1 i1 have i2: "list_all (\<lambda>nc. src_settled nc t2) ncs1"
    "list_all (\<lambda>nc. router_settled nc t2) (routers s)"
    "list_all (\<lambda>nc. sink_settled nc t2) (network_interface_sinks s)"
    by (auto simp: list_all_iff intro: m2)
  from i2(2) have "list_all (\<lambda>nc. router_settled nc ?u2) (routers s)" by simp
  from tick_each_settled [where P = router_settled, OF router_Tick_settled router_settled_kept
      c this]
  have k3: "stamps_kept ?u2 t3" and p3: "list_all (\<lambda>nc. router_settled nc t3) ncs3" by simp_all
  let ?u3 = "t3\<lparr>routers := ncs3\<rparr>"
  have m3: "src_settled x t2 \<Longrightarrow> src_settled x t3"
    "link_settled y t2 \<Longrightarrow> link_settled y t3"
    "sink_settled z t2 \<Longrightarrow> sink_settled z t3" for x y z
    using src_settled_kept [OF k3, of x] link_settled_kept [OF k3, of y]
      sink_settled_kept [OF k3, of z] by simp_all
  from p2 i2 have i3: "list_all (\<lambda>nc. src_settled nc t3) ncs1"
    "list_all (\<lambda>nc. link_settled nc t3) ncs2"
    "list_all (\<lambda>nc. sink_settled nc t3) (network_interface_sinks s)"
    by (auto simp: list_all_iff intro: m3)
  from i3(3) have "list_all (\<lambda>nc. sink_settled nc ?u3) (network_interface_sinks s)" by simp
  from tick_each_settled [where P = sink_settled, OF sink_Tick_settled sink_settled_kept d this]
  have k4: "stamps_kept ?u3 t4" and p4: "list_all (\<lambda>nc. sink_settled nc t4) ncs4" by simp_all
  have m4: "src_settled x t3 \<Longrightarrow> src_settled x t4"
    "link_settled y t3 \<Longrightarrow> link_settled y t4"
    "router_settled z t3 \<Longrightarrow> router_settled z t4" for x y z
    using src_settled_kept [OF k4, of x] link_settled_kept [OF k4, of y]
      router_settled_kept [OF k4, of z] by simp_all
  from p3 p4 i3 have i4: "list_all (\<lambda>nc. src_settled nc s') ncs1"
    "list_all (\<lambda>nc. link_settled nc s') ncs2"
    "list_all (\<lambda>nc. router_settled nc s') ncs3"
    "list_all (\<lambda>nc. sink_settled nc s') ncs4"
    unfolding s' by (auto simp: list_all_iff intro: m4)
  from frame_fields [OF stamps_kept_frame [OF k1]] frame_fields [OF stamps_kept_frame [OF k2]]
    frame_fields [OF stamps_kept_frame [OF k3]] frame_fields [OF stamps_kept_frame [OF k4]]
  have "network_interface_sources s' = ncs1" "links s' = ncs2" "routers s' = ncs3"
    "network_interface_sinks s' = ncs4"
    by (simp_all add: s')
  with i4 show ?thesis by (simp add: stamps_settled_def)
qed

lemma run_ticks_last_tick:
  assumes run: "run_ticks s n = Some (Inr (s', k))"
  shows "\<exists>s0. NocSimulator_Tick s0 = Inr (True, s')"
proof -
  have "\<forall>s' k. y = Inr (s', k) \<longrightarrow> (\<exists>s0. NocSimulator_Tick s0 = Inr (True, s'))"
    if "run_ticks s n = Some y" for y
  proof (rule run_ticks.raw_induct
      [where P = "\<lambda>s n y. \<forall>s' k. y = Inr (s', k) \<longrightarrow>
                     (\<exists>s0. NocSimulator_Tick s0 = Inr (True, s'))", rotated, OF that])
    fix f :: "NocSimulator \<Rightarrow> int \<Rightarrow> (NocSimulator \<times> int) outcome option"
      and s n y
    assume IH: "\<And>s n y. f s n = Some y \<Longrightarrow>
                  \<forall>s' k. y = Inr (s', k) \<longrightarrow> (\<exists>s0. NocSimulator_Tick s0 = Inr (True, s'))"
      and body: "(case NocSimulator_Tick s of Inl e \<Rightarrow> Some (Inl e)
          | Inr (converged, sim1) \<Rightarrow>
              if converged then Some (Inr (sim1, n + 1)) else f sim1 (n + 1)) = Some y"
    show "\<forall>s' k. y = Inr (s', k) \<longrightarrow> (\<exists>s0. NocSimulator_Tick s0 = Inr (True, s'))"
    proof (intro allI impI)
      fix s' k assume y: "y = Inr (s', k)"
      from body y obtain b s1 where tick: "NocSimulator_Tick s = Inr (b, s1)"
        by (auto split: sum.splits)
      show "\<exists>s0. NocSimulator_Tick s0 = Inr (True, s')"
      proof (cases b)
        case True
        with body tick y show ?thesis by auto
      next
        case False
        with body tick have "f s1 (n + 1) = Some y" by simp
        from IH [OF this] y show ?thesis by simp
      qed
    qed
  qed
  with run show ?thesis by blast
qed

lemma run_ticks_cycle:
  assumes run: "run_ticks s n = Some (Inr (s', k))"
  shows "cycle_sim s' = cycle_sim s"
proof (rule run_ticks_invariant [where I = "\<lambda>t. cycle_sim t = cycle_sim s", OF _ run])
  fix t b t' assume "NocSimulator_Tick t = Inr (b, t')" "cycle_sim t = cycle_sim s"
  then show "cycle_sim t' = cycle_sim s"
    by (auto elim: NocSimulator_Tick_components)
qed simp

lemma unmarked_settled:
  assumes "all_unmarked_for (cycle_sim s + 1) s"
  shows "stamps_settled (s\<lparr>cycle_sim := cycle_sim s + 1\<rparr>)"
  using assms
  by (auto simp: all_unmarked_for_def unmarked_for_def stamps_settled_def list_all_iff
        src_settled_def link_settled_def router_settled_def sink_settled_def)

lemmas dangling_defs =
  dangling_src_def dangling_net_def dangling_start_def dangling_converged_def
  example_connection_def example_bubble_def no_routes_def

lemma dangling_src_initialized:
  "SimNetworkInterfaceSrc_InitializeImpl 0 0 simulator dangling_src = dangling_src"
  by (simp add: SimNetworkInterfaceSrc_InitializeImpl_def resize_def dangling_src_def)

lemma dangling_tick:
  "NocSimulator_Tick (dangling_start\<lparr>cycle_sim := cycle_sim dangling_start + 1\<rparr>) =
     Inr (True, dangling_converged)"
  by (simp add: tick_defs dangling_defs)




end
